theory Spec2Isabelle
  imports Complex_Main "HOL-Library.Log_Nat" "HOL-Library.AList"
begin

section \<open>Transaction analytics of \<^verbatim>\<open>src/App.tsx\<close>\<close>

text \<open>
  The development embeds the two analytic functions of \<^verbatim>\<open>src/App.tsx\<close>,
  \<^verbatim>\<open>performAdvancedAnalytics\<close> (lines 210-250) and \<^verbatim>\<open>getAnalyticsSummary\<close>
  (lines 308-347), together with \<^verbatim>\<open>getChartData\<close> (lines 290-304), and the
  JavaScript built-ins they call.
\<close>

subsection \<open>JavaScript numbers\<close>

text \<open>
  A JavaScript \<^verbatim>\<open>number\<close> is an IEEE-754 binary64 value. The model represents a
  finite one by the rational it denotes, and every arithmetic operation rounds its exact
  result to 53 significant bits, to nearest with ties to even (\<open>fl\<close>). Three things are
  outside the model: the exponent range (no overflow to \<^verbatim>\<open>Infinity\<close>, no subnormal
  numbers), \<^verbatim>\<open>NaN\<close>, and the sign of zero (\<^verbatim>\<open>-0\<close> and \<^verbatim>\<open>0\<close> are equal
  under \<^verbatim>\<open>===\<close>, compare alike and both print as \<^verbatim>\<open>0\<close>).

  So \<open>fl\<close> gives the result of the binary64 operation exactly when the rounded result
  is zero or of a magnitude from \<open>2 ^ - 1022\<close> up to, and without, \<open>2 ^ 1024\<close>
  (\<open>in_range\<close>): below that range binary64 rounds more coarsely or to zero, above it
  the result is an infinity, and from there on a \<^verbatim>\<open>NaN\<close> can arise. A statement about
  the value of an arithmetic result holds of the code for the runs that stay in the
  range. The sign of a difference is the same in either case.
\<close>

type_synonym number = rat

definition pow2 :: "int \<Rightarrow> rat" where
  "pow2 e = (if 0 \<le> e then 2 ^ nat e else 1 / 2 ^ nat (- e))"

text \<open>\<open>ilog2 x\<close> is the binary exponent of a positive \<open>x\<close>: \<open>2 ^ ilog2 x \<le> x < 2 ^ (ilog2 x + 1)\<close>.\<close>

definition ilog2 :: "rat \<Rightarrow> int" where
  "ilog2 x = (let (p, q) = quotient_of x; d = bitlen p - bitlen q
              in if pow2 d \<le> x then d else d - 1)"

definition round_half_even :: "rat \<Rightarrow> int" where
  "round_half_even y =
     (let n = \<lfloor>y\<rfloor>; r = y - of_int n
      in if r < 1 / 2 then n else if 1 / 2 < r then n + 1
         else if even n then n else n + 1)"

definition fl :: "rat \<Rightarrow> number" where
  "fl x = (if x = 0 then 0
           else let q = pow2 (ilog2 \<bar>x\<bar> - 52) in of_int (round_half_even (x / q)) * q)"

definition in_range :: "rat \<Rightarrow> bool" where
  "in_range x \<longleftrightarrow> x = 0 \<or> (pow2 (- 1022) \<le> \<bar>x\<bar> \<and> \<bar>x\<bar> < pow2 1024)"

definition fadd :: "number \<Rightarrow> number \<Rightarrow> number" where
  "fadd x y = fl (x + y)"

definition fsub :: "number \<Rightarrow> number \<Rightarrow> number" where
  "fsub x y = fl (x - y)"

definition fmul :: "number \<Rightarrow> number \<Rightarrow> number" where
  "fmul x y = fl (x * y)"

text \<open>
  \<^verbatim>\<open>x / y\<close>. A zero divisor gives \<^verbatim>\<open>NaN\<close> or an infinity in JavaScript, which
  the model does not have; both divisions of the source have a divisor that is not zero
  (a length of a non-empty array, and \<^verbatim>\<open>stdDev\<close> under the guard \<^verbatim>\<open>stdDev > 0\<close>).
\<close>

definition fdiv :: "number \<Rightarrow> number \<Rightarrow> number" where
  "fdiv x y = fl (x / y)"

text \<open>
  \<^verbatim>\<open>Math.pow(x, 2)\<close>: the square, rounded. The language asks of \<^verbatim>\<open>Math.pow\<close> and
  \<^verbatim>\<open>Math.sqrt\<close> only an approximation; the model takes the correctly rounded value,
  which is what an engine returns for a square and for a root.
\<close>

definition Math_pow_2 :: "number \<Rightarrow> number" where
  "Math_pow_2 x = fmul x x"

function isqrt :: "int \<Rightarrow> int" where
  "isqrt n = (if n < 2 then n
              else let r = 2 * isqrt (n div 4)
                   in if (r + 1) * (r + 1) \<le> n then r + 1 else r)"
  by pat_completeness auto
termination
  by (relation "measure nat") auto

declare isqrt.simps [simp del]

text \<open>
  \<^verbatim>\<open>Math.sqrt(x)\<close>: the square root rounded to 53 significant bits. With
  \<open>t = ilog2 x div 2 - 52\<close> the scaled argument \<open>z = x / 4 ^ t\<close> lies between \<open>2 ^ 104\<close>
  and \<open>2 ^ 106\<close>, so its root has 53 bits before the binary point; \<open>r\<close> is the integer
  part of that root and the result is \<open>r\<close> or \<open>r + 1\<close>, whichever is nearer. A negative
  argument (\<^verbatim>\<open>NaN\<close> in JavaScript) does not occur: the source takes the root of a
  mean of squares.
\<close>

definition Math_sqrt :: "number \<Rightarrow> number" where
  "Math_sqrt x =
     (if x \<le> 0 then 0
      else let t = ilog2 x div 2 - 52;
               z = x / pow2 (2 * t);
               r = isqrt \<lfloor>z\<rfloor>;
               m = (if z < of_int (r * r + r) + 1 / 4 then r else r + 1)
           in of_int m * pow2 t)"

text \<open>
  \<^verbatim>\<open>parseFloat(x.toFixed(2))\<close>. \<^verbatim>\<open>toFixed(2)\<close> prints a negative \<open>x\<close> as
  \<^verbatim>\<open>-\<close> followed by the print of \<open>- x\<close>; for \<open>0 \<le> x < 10 ^ 21\<close> it prints \<open>n / 100\<close> for
  the integer \<open>n\<close> nearest to \<open>100 * x\<close>, the larger one of two; from \<open>10 ^ 21\<close> on it prints
  \<open>x\<close> itself. \<^verbatim>\<open>parseFloat\<close> reads the decimal numeral back as the nearest binary64
  value. The string in between is not modelled, only the number it denotes.
\<close>

definition toFixed_2 :: "number \<Rightarrow> rat" where
  "toFixed_2 x =
     (let a = \<bar>x\<bar>;
          m = (if 10 ^ 21 \<le> a then a else of_int \<lfloor>a * 100 + 1 / 2\<rfloor> / 100)
      in if x < 0 then - m else m)"

definition parseFloat_toFixed_2 :: "number \<Rightarrow> number" where
  "parseFloat_toFixed_2 x = fl (toFixed_2 x)"

subsection \<open>Printing a number\<close>

text \<open>
  A template literal prints a number with \<^verbatim>\<open>Number::toString\<close>: the shortest decimal
  numeral \<open>s * 10 ^ (n - k)\<close>, \<open>s\<close> of \<open>k\<close> digits, that reads back as the same binary64
  value, laid out as an integer, a decimal fraction or in exponent notation according
  to \<open>n\<close>.
\<close>

definition pow10 :: "int \<Rightarrow> rat" where
  "pow10 e = (if 0 \<le> e then 10 ^ nat e else 1 / 10 ^ nat (- e))"

function ndigits :: "int \<Rightarrow> int" where
  "ndigits n = (if n < 10 then 1 else 1 + ndigits (n div 10))"
  by pat_completeness auto
termination
  by (relation "measure nat") auto

declare ndigits.simps [simp del]

text \<open>\<open>decexp x\<close> is the decimal exponent of a positive \<open>x\<close>: \<open>10 ^ (decexp x - 1) \<le> x < 10 ^ decexp x\<close>.\<close>

definition decexp :: "rat \<Rightarrow> int" where
  "decexp x = (let (p, q) = quotient_of x; d = ndigits p - ndigits q
               in if pow10 d \<le> x then d + 1 else d)"

function showInt :: "int \<Rightarrow> string" where
  "showInt n = (if n < 10 then [''0123456789'' ! nat n]
                else showInt (n div 10) @ [''0123456789'' ! nat (n mod 10)])"
  by pat_completeness auto
termination
  by (relation "measure nat") auto

declare showInt.simps [simp del]

text \<open>
  The \<open>k\<close>-digit significand for \<open>x\<close>, if one reads back as \<open>x\<close>: of the two multiples of
  \<open>10 ^ (decexp x - k)\<close> around \<open>x\<close>, the one that rounds to \<open>x\<close>, the nearer one (the even
  one at equal distance) if both do.
\<close>

definition candidate :: "int \<Rightarrow> rat \<Rightarrow> int option" where
  "candidate k x =
     (let u = pow10 (decexp x - k);
          lo = \<lfloor>x / u\<rfloor>;
          hi = lo + 1;
          okl = (fl (of_int lo * u) = x);
          okh = (fl (of_int hi * u) = x);
          dl = x - of_int lo * u;
          dh = of_int hi * u - x
      in if okl \<and> okh then
           (if dl < dh then Some lo else if dh < dl then Some hi
            else if even lo then Some lo else Some hi)
         else if okl then Some lo
         else if okh then Some hi
         else None)"

text \<open>The triple \<open>(n, k, s)\<close> with the least \<open>k\<close>, starting the search at \<open>k\<close>.\<close>

fun shortest :: "nat \<Rightarrow> int \<Rightarrow> rat \<Rightarrow> int \<times> int \<times> int" where
  "shortest 0 k x = (decexp x, k, \<lfloor>x / pow10 (decexp x - k)\<rfloor>)"
| "shortest (Suc fuel) k x =
     (case candidate k x of
        Some s \<Rightarrow> if of_int s = pow10 k then (decexp x + 1, 1, 1) else (decexp x, k, s)
      | None \<Rightarrow> shortest fuel (k + 1) x)"

definition numToString_pos :: "number \<Rightarrow> string" where
  "numToString_pos x =
     (let (n, k, s) = shortest 17 1 x; ds = showInt s
      in if k \<le> n \<and> n \<le> 21 then ds @ replicate (nat (n - k)) (CHR ''0'')
         else if 0 < n \<and> n \<le> 21 then take (nat n) ds @ ''.'' @ drop (nat n) ds
         else if - 6 < n \<and> n \<le> 0 then ''0.'' @ replicate (nat (- n)) (CHR ''0'') @ ds
         else let e = n - 1;
                  es = (if e < 0 then ''-'' else ''+'') @ showInt \<bar>e\<bar>
              in if k = 1 then ds @ ''e'' @ es
                 else take 1 ds @ ''.'' @ drop 1 ds @ ''e'' @ es)"

definition numToString :: "number \<Rightarrow> string" where
  "numToString x =
     (if x = 0 then ''0''
      else if x < 0 then ''-'' @ numToString_pos (- x)
      else numToString_pos x)"

subsection \<open>Strings\<close>

text \<open>
  A string is a list of eight-bit characters, standing for the code units
  \<^verbatim>\<open>U+0000\<close> to \<^verbatim>\<open>U+00FF\<close>; strings with other code units are outside the model.
  On this range \<^verbatim>\<open>toLowerCase\<close> moves \<^verbatim>\<open>A-Z\<close> and \<^verbatim>\<open>U+00C0-U+00DE\<close>
  (without the multiplication sign \<^verbatim>\<open>U+00D7\<close>) up by 32.
\<close>

definition toLowerCase_char :: "char \<Rightarrow> char" where
  "toLowerCase_char c =
     (let n = (of_char c :: nat)
      in if (65 \<le> n \<and> n \<le> 90) \<or> (192 \<le> n \<and> n \<le> 222 \<and> n \<noteq> 215)
         then char_of (n + 32) else c)"

definition toLowerCase :: "string \<Rightarrow> string" where
  "toLowerCase s = map toLowerCase_char s"

text \<open>\<^verbatim>\<open>\d\<close> matches the ten ASCII digits.\<close>

definition isDigit :: "char \<Rightarrow> bool" where
  "isDigit c \<longleftrightarrow> (let n = (of_char c :: nat) in 48 \<le> n \<and> n \<le> 57)"

text \<open>
  \<^verbatim>\<open>s.replace(/\d+/g, '')\<close> removes every maximal run of digits, so it removes every
  digit and nothing else.
\<close>

definition replace_digits :: "string \<Rightarrow> string" where
  "replace_digits s = filter (\<lambda>c. \<not> isDigit c) s"

text \<open>
  \<^verbatim>\<open>trim\<close> removes white space and line terminators at both ends: on this range
  tab, line feed, vertical tab, form feed, carriage return, space and the no-break
  space \<^verbatim>\<open>U+00A0\<close>.
\<close>

definition isWhiteSpace :: "char \<Rightarrow> bool" where
  "isWhiteSpace c \<longleftrightarrow> (let n = (of_char c :: nat) in (9 \<le> n \<and> n \<le> 13) \<or> n = 32 \<or> n = 160)"

definition trim :: "string \<Rightarrow> string" where
  "trim s = rev (dropWhile isWhiteSpace (rev (dropWhile isWhiteSpace s)))"

subsection \<open>Transactions\<close>

text \<open>
  \<^verbatim>\<open>interface Transaction\<close> (lines 40-50). The three analytics fields are optional:
  \<open>None\<close> is an absent field. The field \<^verbatim>\<open>notes\<close> is \<open>notes'\<close> here, \<open>notes\<close> being
  a keyword.
\<close>

record Transaction =
  date :: string
  description :: string
  amount :: number
  category :: string
  notes' :: string
  duplicateFlag :: "bool option"
  anomalyScore :: "number option"
  isRecurring :: "bool option"

subsection \<open>\<^verbatim>\<open>performAdvancedAnalytics\<close>\<close>

text \<open>
  A \<^verbatim>\<open>Map\<close> keeps its keys in the order of their first insertion and \<^verbatim>\<open>set\<close>
  on a key that is present replaces the value in place: an association list under
  \<^const>\<open>AList.update\<close>, read with \<^const>\<open>map_of\<close>. The counts of \<^verbatim>\<open>seen\<close> are
  natural numbers.
\<close>

text \<open>The key \<^verbatim>\<open>`${t.date}-${t.description}-${t.amount}`\<close>.\<close>

definition dupKey :: "'a Transaction_scheme \<Rightarrow> string" where
  "dupKey t = date t @ ''-'' @ description t @ ''-'' @ numToString (amount t)"

text \<open>\<^verbatim>\<open>seen.get(key) || 0\<close>: an absent key and a zero both give \<open>0\<close>.\<close>

definition get_or_0 :: "(string \<times> nat) list \<Rightarrow> string \<Rightarrow> nat" where
  "get_or_0 m k = (case map_of m k of None \<Rightarrow> 0 | Some c \<Rightarrow> c)"

text \<open>The body of the first \<^verbatim>\<open>data.forEach\<close> (lines 215-218), and the loop.\<close>

definition countKey :: "(string \<times> nat) list \<Rightarrow> 'a Transaction_scheme \<Rightarrow> (string \<times> nat) list" where
  "countKey seen t = (let key = dupKey t in AList.update key (get_or_0 seen key + 1) seen)"

definition countKeys :: "'a Transaction_scheme list \<Rightarrow> (string \<times> nat) list" where
  "countKeys data = foldl countKey [] data"

text \<open>\<^verbatim>\<open>t.description.toLowerCase().replace(/\d+/g, '').trim()\<close>.\<close>

definition normalize :: "string \<Rightarrow> string" where
  "normalize s = trim (replace_digits (toLowerCase s))"

definition normalizeDesc :: "'a Transaction_scheme \<Rightarrow> string" where
  "normalizeDesc t = normalize (description t)"

text \<open>The body of the second \<^verbatim>\<open>data.forEach\<close> (lines 228-232), and the loop.\<close>

definition groupDesc ::
  "(string \<times> number list) list \<Rightarrow> 'a Transaction_scheme \<Rightarrow> (string \<times> number list) list" where
  "groupDesc descGroups t =
     (let normalizedDesc = normalizeDesc t;
          g = (if map_of descGroups normalizedDesc = None
               then AList.update normalizedDesc [] descGroups else descGroups)
      in case map_of g normalizedDesc of
           None \<Rightarrow> g
         | Some l \<Rightarrow> AList.update normalizedDesc (l @ [\<bar>amount t\<bar>]) g)"

definition groupDescs :: "'a Transaction_scheme list \<Rightarrow> (string \<times> number list) list" where
  "groupDescs data = foldl groupDesc [] data"

text \<open>\<^verbatim>\<open>descGroups.get(normalizedDesc) || []\<close>.\<close>

definition group_of :: "(string \<times> number list) list \<Rightarrow> string \<Rightarrow> number list" where
  "group_of descGroups k = (case map_of descGroups k of None \<Rightarrow> [] | Some l \<Rightarrow> l)"

text \<open>
  The statistics \<^verbatim>\<open>mean\<close>, \<^verbatim>\<open>variance\<close> and \<^verbatim>\<open>stdDev\<close> of lines 222-224, as
  functions of \<^verbatim>\<open>amounts\<close>.
\<close>

definition mean_of :: "number list \<Rightarrow> number" where
  "mean_of amounts = fdiv (foldl (\<lambda>a b. fadd a b) 0 amounts) (of_nat (length amounts))"

definition variance_of :: "number list \<Rightarrow> number" where
  "variance_of amounts =
     fdiv (foldl (\<lambda>a b. fadd a (Math_pow_2 (fsub b (mean_of amounts)))) 0 amounts)
          (of_nat (length amounts))"

definition stdDev_of :: "number list \<Rightarrow> number" where
  "stdDev_of amounts = Math_sqrt (variance_of amounts)"

text \<open>\<^verbatim>\<open>amounts\<close> of line 221: the absolute amounts of the batch.\<close>

definition amounts_of :: "Transaction list \<Rightarrow> number list" where
  "amounts_of data = map (\<lambda>t. \<bar>amount t\<bar>) data"

text \<open>
  The values that the accumulator of a \<^verbatim>\<open>reduce\<close> takes, one after each element.
\<close>

fun reduce_trace :: "(number \<Rightarrow> 'a \<Rightarrow> number) \<Rightarrow> number \<Rightarrow> 'a list \<Rightarrow> number list" where
  "reduce_trace f acc [] = []"
| "reduce_trace f acc (x # xs) = f acc x # reduce_trace f (f acc x) xs"

text \<open>
  The numbers of a list are binary64 values, and they and the partial sums of the list,
  added up from the left, stay in the range of binary64.
\<close>

definition sum_in_range :: "number list \<Rightarrow> bool" where
  "sum_in_range xs \<longleftrightarrow>
     list_all (\<lambda>x. fl x = x) xs
     \<and> list_all in_range (xs @ reduce_trace (\<lambda>a b. fadd a b) 0 xs)"


text \<open>
  The function mapped over \<^verbatim>\<open>data\<close> at the end (lines 234-249), with the values it
  takes from the enclosing scope as arguments. The object spread keeps every field of
  \<open>t\<close>; the three analytics fields are then set.
\<close>

definition tag ::
  "(string \<times> nat) list \<Rightarrow> number \<Rightarrow> number \<Rightarrow> (string \<times> number list) list
     \<Rightarrow> Transaction \<Rightarrow> Transaction" where
  "tag seen mean stdDev descGroups t =
     (let key = dupKey t;
          normalizedDesc = normalizeDesc t;
          amountsInGroup = group_of descGroups normalizedDesc;
          absAmount = \<bar>amount t\<bar>;
          anomalyScore = (if stdDev > 0 then fdiv (fsub absAmount mean) stdDev else 0)
      in t\<lparr>duplicateFlag := Some (get_or_0 seen key > 1),
           anomalyScore := Some (parseFloat_toFixed_2 anomalyScore),
           isRecurring := Some (length amountsInGroup \<ge> 2)\<rparr>)"

definition performAdvancedAnalytics :: "Transaction list \<Rightarrow> Transaction list" where
  "performAdvancedAnalytics data =
     (if length data = 0 then []
      else
        let seen = countKeys data;
            amounts = map (\<lambda>t. \<bar>amount t\<bar>) data;
            descGroups = groupDescs data
        in map (tag seen (mean_of amounts) (stdDev_of amounts) descGroups) data)"

subsection \<open>Sorting and dates\<close>

text \<open>
  \<^verbatim>\<open>Array.prototype.sort\<close> with a comparator is stable, and \<open>a\<close> stays before \<open>b\<close>
  unless the comparator is positive on \<open>(a, b)\<close>. For a comparator that is a total
  preorder the result is the one stable sorted arrangement, which insertion computes;
  for any other comparator the language leaves the order to the implementation, and
  the model then stands for one possible implementation.
\<close>

fun insort_cmp :: "('a \<Rightarrow> 'a \<Rightarrow> number) \<Rightarrow> 'a \<Rightarrow> 'a list \<Rightarrow> 'a list" where
  "insort_cmp cmp x [] = [x]"
| "insort_cmp cmp x (y # ys) =
     (if cmp x y \<le> 0 then x # y # ys else y # insort_cmp cmp x ys)"

definition js_sort :: "('a \<Rightarrow> 'a \<Rightarrow> number) \<Rightarrow> 'a list \<Rightarrow> 'a list" where
  "js_sort cmp xs = foldr (insort_cmp cmp) xs []"

definition digitsVal :: "string \<Rightarrow> int" where
  "digitsVal s = foldl (\<lambda>a c. 10 * a + (of_char c - 48)) 0 s"

definition isLeap :: "int \<Rightarrow> bool" where
  "isLeap y \<longleftrightarrow> y mod 4 = 0 \<and> (y mod 100 \<noteq> 0 \<or> y mod 400 = 0)"

definition daysInMonth :: "int \<Rightarrow> int \<Rightarrow> int" where
  "daysInMonth y m =
     (if m = 2 then (if isLeap y then 29 else 28)
      else if m = 4 \<or> m = 6 \<or> m = 9 \<or> m = 11 then 30 else 31)"

text \<open>
  The date-only form \<^verbatim>\<open>YYYY-MM-DD\<close> of the language's date-time format, with a month
  from 1 to 12 and a day of that month: the form of the data model, and one whose time
  value the language fixes.
\<close>

definition parseDate :: "string \<Rightarrow> (int \<times> int \<times> int) option" where
  "parseDate s =
     (if length s = 10 \<and> s ! 4 = CHR ''-'' \<and> s ! 7 = CHR ''-''
         \<and> list_all isDigit (take 4 s) \<and> list_all isDigit (take 2 (drop 5 s))
         \<and> list_all isDigit (drop 8 s)
      then let y = digitsVal (take 4 s);
               m = digitsVal (take 2 (drop 5 s));
               d = digitsVal (drop 8 s)
           in if 1 \<le> m \<and> m \<le> 12 \<and> 1 \<le> d \<and> d \<le> daysInMonth y m
              then Some (y, m, d) else None
      else None)"

text \<open>The day number of 1 January of year \<open>y\<close>, counted from 1 January 1970.\<close>

definition dayFromYear :: "int \<Rightarrow> int" where
  "dayFromYear y =
     365 * (y - 1970) + (y - 1969) div 4 - (y - 1901) div 100 + (y - 1601) div 400"

definition daysBeforeMonth :: "int \<Rightarrow> int \<Rightarrow> int" where
  "daysBeforeMonth y m =
     [0, 31, 59, 90, 120, 151, 181, 212, 243, 273, 304, 334] ! nat (m - 1)
     + (if isLeap y \<and> 2 < m then 1 else 0)"

definition makeDay :: "int \<times> int \<times> int \<Rightarrow> int" where
  "makeDay ymd = (case ymd of (y, m, d) \<Rightarrow> dayFromYear y + daysBeforeMonth y m + d - 1)"

text \<open>
  \<^verbatim>\<open>new Date(s).getTime()\<close>, with \<open>None\<close> for \<^verbatim>\<open>NaN\<close> (an invalid date). For a date
  of the form above it is the milliseconds from the epoch to midnight UTC of that date.
  What it is for any other string depends on the implementation: a longer form of the
  date-time format, a day past the end of the month or a string in no format at all goes
  to the parser of the engine, with its own fallback formats. That parser is the
  argument \<open>engine\<close>, about which nothing is assumed.
\<close>

definition getTime :: "(string \<Rightarrow> int option) \<Rightarrow> string \<Rightarrow> int option" where
  "getTime engine s =
     (case parseDate s of
        Some ymd \<Rightarrow> Some (makeDay ymd * 86400000)
      | None \<Rightarrow> engine s)"

text \<open>
  \<^verbatim>\<open>new Date(a).getTime() - new Date(b).getTime()\<close> as a comparator. The difference of
  two time values is exact. With an invalid date it is \<^verbatim>\<open>NaN\<close>, which \<^verbatim>\<open>sort\<close>
  takes as \<open>0\<close>.
\<close>

definition dateDiff :: "(string \<Rightarrow> int option) \<Rightarrow> string \<Rightarrow> string \<Rightarrow> number" where
  "dateDiff engine a b =
     (case (getTime engine a, getTime engine b) of
        (Some x, Some y) \<Rightarrow> of_int (x - y)
      | _ \<Rightarrow> 0)"

subsection \<open>\<^verbatim>\<open>getAnalyticsSummary\<close>\<close>

text \<open>
  The summary object (lines 336-346). An entry of \<^verbatim>\<open>spikesData\<close> is the pair of its
  \<^verbatim>\<open>date\<close> and \<^verbatim>\<open>amount\<close>, an entry of \<^verbatim>\<open>anomalyData\<close> the triple of its
  \<^verbatim>\<open>index\<close>, \<^verbatim>\<open>score\<close> and \<^verbatim>\<open>desc\<close>.
\<close>

record Summary =
  totalRecords :: nat
  totalSpending :: number
  totalIncome :: number
  duplicates :: nat
  suspicious :: nat
  highest :: Transaction
  lowest :: Transaction
  spikesData :: "(string \<times> number) list"
  anomalyData :: "(nat \<times> number \<times> string) list"

text \<open>\<^verbatim>\<open>m.get(k) || 0\<close> and \<^verbatim>\<open>t.anomalyScore || 0\<close> on numbers.\<close>

definition num_or_0 :: "number option \<Rightarrow> number" where
  "num_or_0 v = (case v of None \<Rightarrow> 0 | Some x \<Rightarrow> x)"

text \<open>The body of \<^verbatim>\<open>transactions.forEach\<close> (lines 320-324), and the loop.\<close>

definition addSpike :: "(string \<times> number) list \<Rightarrow> Transaction \<Rightarrow> (string \<times> number) list" where
  "addSpike m t =
     (if amount t < 0
      then AList.update (date t) (fadd (num_or_0 (map_of m (date t))) \<bar>amount t\<bar>) m
      else m)"

definition spikesMap :: "Transaction list \<Rightarrow> (string \<times> number) list" where
  "spikesMap transactions = foldl addSpike [] transactions"

text \<open>
  \<^verbatim>\<open>getAnalyticsSummary\<close>, for the date parser \<open>engine\<close> of the implementation it runs on.
\<close>

definition getAnalyticsSummary ::
  "(string \<Rightarrow> int option) \<Rightarrow> Transaction list \<Rightarrow> Summary option" where
  "getAnalyticsSummary engine transactions =
     (if length transactions = 0 then None
      else Some
        \<lparr>totalRecords = length transactions,
         totalSpending =
           foldl (\<lambda>acc t. fadd acc \<bar>amount t\<bar>) 0 (filter (\<lambda>t. amount t < 0) transactions),
         totalIncome =
           foldl (\<lambda>acc t. fadd acc (amount t)) 0 (filter (\<lambda>t. amount t > 0) transactions),
         duplicates = length (filter (\<lambda>t. duplicateFlag t = Some True) transactions),
         suspicious = length (filter (\<lambda>t. num_or_0 (anomalyScore t) > 2) transactions),
         highest = js_sort (\<lambda>a b. fsub (amount b) (amount a)) transactions ! 0,
         lowest = js_sort (\<lambda>a b. fsub (amount a) (amount b)) transactions ! 0,
         spikesData = js_sort (\<lambda>a b. dateDiff engine (fst a) (fst b)) (spikesMap transactions),
         anomalyData =
           filter (\<lambda>d. fst (snd d) > 1)
             (map (\<lambda>(i, t). (i, num_or_0 (anomalyScore t), description t))
                  (enumerate 0 transactions))\<rparr>)"

subsection \<open>\<^verbatim>\<open>getChartData\<close>\<close>

text \<open>
  \<^verbatim>\<open>spendingByCategory\<close> is a plain object. \<^verbatim>\<open>Object.entries\<close> lists its array-index
  keys first, in ascending numeric order, then the other keys in the order of their
  creation.
\<close>

definition isArrayIndex :: "string \<Rightarrow> bool" where
  "isArrayIndex s \<longleftrightarrow>
     s \<noteq> [] \<and> list_all isDigit s \<and> (s = ''0'' \<or> hd s \<noteq> CHR ''0'') \<and> digitsVal s \<le> 4294967294"

definition Object_entries :: "(string \<times> 'v) list \<Rightarrow> (string \<times> 'v) list" where
  "Object_entries obj =
     sort_key (\<lambda>e. digitsVal (fst e)) (filter (\<lambda>e. isArrayIndex (fst e)) obj)
     @ filter (\<lambda>e. \<not> isArrayIndex (fst e)) obj"

text \<open>
  Two keys meet a property that the object inherits. Reading \<^verbatim>\<open>constructor\<close> gives a
  function, so the sum stored under it is a string, on which \<^verbatim>\<open>value.toFixed\<close> is
  not a function: \<^verbatim>\<open>getChartData\<close> throws. Assigning a string to \<^verbatim>\<open>__proto__\<close>
  creates no property.
\<close>

datatype error = TypeError

definition addSpending :: "(string \<times> number) list \<Rightarrow> Transaction \<Rightarrow> (string \<times> number) list" where
  "addSpending obj t =
     (if amount t < 0 then
        let category = toLowerCase (category t)
        in if category = ''__proto__'' then obj
           else AList.update category (fadd (num_or_0 (map_of obj category)) \<bar>amount t\<bar>) obj
      else obj)"

definition spendingByCategory :: "Transaction list \<Rightarrow> (string \<times> number) list" where
  "spendingByCategory transactions = foldl addSpending [] transactions"

text \<open>
  \<^verbatim>\<open>toUpperCase\<close> of one character. The capital of \<^verbatim>\<open>U+00DF\<close> is \<^verbatim>\<open>SS\<close>; the
  capitals of \<^verbatim>\<open>U+00B5\<close> and \<^verbatim>\<open>U+00FF\<close> are not eight-bit characters and such names
  are outside the model, which leaves the two as they are.
\<close>

definition toUpperCase_char :: "char \<Rightarrow> string" where
  "toUpperCase_char c =
     (let n = (of_char c :: nat)
      in if (97 \<le> n \<and> n \<le> 122) \<or> (224 \<le> n \<and> n \<le> 254 \<and> n \<noteq> 247)
         then [char_of (n - 32)]
         else if n = 223 then ''SS'' else [c])"

text \<open>\<^verbatim>\<open>name.charAt(0).toUpperCase() + name.slice(1)\<close>.\<close>

definition capitalize :: "string \<Rightarrow> string" where
  "capitalize name = (case name of [] \<Rightarrow> [] | c # cs \<Rightarrow> toUpperCase_char c @ cs)"

definition getChartData :: "Transaction list \<Rightarrow> error + (string \<times> number) list" where
  "getChartData transactions =
     (if list_ex (\<lambda>t. amount t < 0 \<and> toLowerCase (category t) = ''constructor'') transactions
      then Inl TypeError
      else Inr (js_sort (\<lambda>a b. fsub (snd b) (snd a))
                  (map (\<lambda>(name, value). (capitalize name, parseFloat_toFixed_2 value))
                       (Object_entries (spendingByCategory transactions)))))"

subsection \<open>Example batches\<close>

text \<open>
  A record as the extraction step produces it: the five required fields of the response
  schema (lines 170-182), no analytics field.
\<close>

definition txn :: "string \<Rightarrow> string \<Rightarrow> number \<Rightarrow> string \<Rightarrow> Transaction" where
  "txn d ds a c =
     \<lparr>date = d, description = ds, amount = a, category = c, notes' = [],
      duplicateFlag = None, anomalyScore = None, isRecurring = None\<rparr>"

text \<open>The same charge listed twice.\<close>

definition twice_batch :: "Transaction list" where
  "twice_batch =
     [txn ''2024-03-01'' ''GYM MEMBERSHIP'' (- 30) ''health'',
      txn ''2024-03-01'' ''GYM MEMBERSHIP'' (- 30) ''health'']"

text \<open>
  A credit of 40 whose description ends in a hyphen, and a debit of 40 on the same day:
  two different records.
\<close>

definition refund_batch :: "Transaction list" where
  "refund_batch =
     [txn ''2024-03-01'' ''REFUND-'' 40 ''other'',
      txn ''2024-03-01'' ''REFUND'' (- 40) ''other'']"

definition netflix_batch :: "Transaction list" where
  "netflix_batch =
     [txn ''2024-01-05'' ''Netflix Subscription 123'' (- 15) ''entertainment'',
      txn ''2024-02-05'' ''netflix subscription 456'' (- 15) ''entertainment'']"

text \<open>Two credits and no debit.\<close>

definition income_batch :: "Transaction list" where
  "income_batch =
     [txn ''2024-04-30'' ''PAYROLL ACME LTD'' 2500 ''salary'',
      txn ''2024-05-02'' ''INTEREST'' (25 / 2) ''other'']"

text \<open>The largest amount twice and the smallest amount twice.\<close>

definition tie_batch :: "Transaction list" where
  "tie_batch =
     [txn ''2024-06-01'' ''DEPOSIT A'' 50 ''other'',
      txn ''2024-06-02'' ''CAFE'' (- 20) ''dining'',
      txn ''2024-06-03'' ''DEPOSIT B'' 50 ''other'',
      txn ''2024-06-04'' ''BAKERY'' (- 20) ''dining'']"

text \<open>The batch of the spec's example for \<^verbatim>\<open>spikesData\<close>.\<close>

definition spike_batch :: "Transaction list" where
  "spike_batch =
     [txn ''2024-01-02'' ''LUNCH'' (- 50) ''dining'',
      txn ''2024-01-01'' ''COFFEE'' (- 20) ''dining'']"

text \<open>
  Three days of spending, the second under a date that is no date in any format.
\<close>

definition garbage_batch :: "Transaction list" where
  "garbage_batch =
     [txn ''2024-03-05'' ''RENT'' (- 30) ''bills'',
      txn ''garbage'' ''KIOSK'' (- 10) ''other'',
      txn ''2024-01-01'' ''TAXI'' (- 20) ''transport'']"

text \<open>
  An engine that reads nothing as a date beyond the form \<^verbatim>\<open>YYYY-MM-DD\<close>. On the
  batches of this section it stands for every engine: their date strings have that
  form, except \<^verbatim>\<open>garbage\<close>, which no engine reads as a date.
\<close>

definition no_fallback :: "string \<Rightarrow> int option" where
  "no_fallback s = None"

subsection \<open>Calendar dates\<close>

text \<open>A month from 1 to 12 and a day of that month.\<close>

definition validYMD :: "int \<times> int \<times> int \<Rightarrow> bool" where
  "validYMD ymd =
     (case ymd of (y, m, d) \<Rightarrow> 1 \<le> m \<and> m \<le> 12 \<and> 1 \<le> d \<and> d \<le> daysInMonth y m)"

text \<open>
  The order of the calendar on date strings: by year, then month, then day. It is the
  order the claim about \<^verbatim>\<open>spikesData\<close> speaks of, stated without the time values
  that the code compares.
\<close>

definition calendar_le :: "string \<Rightarrow> string \<Rightarrow> bool" where
  "calendar_le a b =
     (case (parseDate a, parseDate b) of
        (Some (y1, m1, d1), Some (y2, m2, d2)) \<Rightarrow>
          y1 < y2 \<or> (y1 = y2 \<and> (m1 < m2 \<or> (m1 = m2 \<and> d1 \<le> d2)))
      | _ \<Rightarrow> False)"

text \<open>
  The order of the dates that the engine reads: by time value. A string that is not read
  as a date is in no order with any other.
\<close>

definition time_le :: "(string \<Rightarrow> int option) \<Rightarrow> string \<Rightarrow> string \<Rightarrow> bool" where
  "time_le engine a b =
     (case (getTime engine a, getTime engine b) of
        (Some x, Some y) \<Rightarrow> x \<le> y
      | _ \<Rightarrow> False)"

text \<open>The time value as a sorting key, \<open>0\<close> where there is none.\<close>

definition timeKey :: "(string \<Rightarrow> int option) \<Rightarrow> string \<Rightarrow> int" where
  "timeKey engine s = (case getTime engine s of Some x \<Rightarrow> x | None \<Rightarrow> 0)"

text \<open>The number that the literal \<^verbatim>\<open>0.1\<close> denotes.\<close>

definition tenth :: number where
  "tenth = fl (1 / 10)"

text \<open>Three charges of ten cents.\<close>

definition dime_batch :: "Transaction list" where
  "dime_batch =
     [txn ''2024-07-01'' ''PARKING METER'' (- tenth) ''transport'',
      txn ''2024-07-02'' ''SMS FEE'' (- tenth) ''bills'',
      txn ''2024-07-03'' ''BOTTLE DEPOSIT'' (- tenth) ''groceries'']"



subsection \<open>The score as the spec words it\<close>

text \<open>
  Rounding to two decimal places, half away from zero: the magnitude goes to the
  nearest multiple of \<open>1 / 100\<close>, upwards from the middle, and the sign is kept.
\<close>

definition round_half_away_2 :: "rat \<Rightarrow> rat" where
  "round_half_away_2 x = sgn x * (of_int \<lfloor>\<bar>x\<bar> * 100 + 1 / 2\<rfloor> / 100)"

text \<open>
  The statistics in the words of the spec, in exact arithmetic: the mean of a list, and
  the mean of the squared deviations from a centre \<open>m\<close>, with the number of elements
  as denominator. The population variance is \<open>mean_square_dev (exact_mean xs) xs\<close>.
\<close>

definition exact_mean :: "rat list \<Rightarrow> rat" where
  "exact_mean xs = sum_list xs / of_nat (length xs)"

definition mean_square_dev :: "rat \<Rightarrow> rat list \<Rightarrow> rat" where
  "mean_square_dev m xs = sum_list (map (\<lambda>x. (x - m) * (x - m)) xs) / of_nat (length xs)"







text \<open>
  Five amounts with mean \<open>9 / 5\<close> and population standard deviation \<open>8 / 5\<close>: the third
  has the score \<open>1 / 8\<close>, midway between two multiples of \<open>1 / 100\<close>.
\<close>

definition midway_batch :: "Transaction list" where
  "midway_batch =
     [txn ''2024-09-01'' ''VOID'' 0 ''other'',
      txn ''2024-09-02'' ''VOID'' 0 ''other'',
      txn ''2024-09-03'' ''TRAM'' (- 2) ''transport'',
      txn ''2024-09-04'' ''REBATE'' 3 ''other'',
      txn ''2024-09-05'' ''SNACK'' (- 4) ''dining'']"

section \<open>Properties\<close>

subsection \<open>The two maps of \<^verbatim>\<open>performAdvancedAnalytics\<close>\<close>

lemma get_or_0_update:
  "get_or_0 (AList.update k v m) k' = (if k' = k then v else get_or_0 m k')"
  by (simp add: get_or_0_def update_conv')

lemma countKeys_fold:
  "get_or_0 (foldl countKey m xs) k = get_or_0 m k + length (filter (\<lambda>t. dupKey t = k) xs)"
  by (induction xs arbitrary: m) (simp_all add: countKey_def get_or_0_update Let_def)

text \<open>\<^verbatim>\<open>seen\<close> counts, for each key, the records of the batch that have it.\<close>

lemma countKeys_count:
  "get_or_0 (countKeys data) k = length (filter (\<lambda>t. dupKey t = k) data)"
  by (simp add: countKeys_def countKeys_fold) (simp add: get_or_0_def)

lemma group_of_groupDesc:
  "group_of (groupDesc g t) k =
     (if normalizeDesc t = k then group_of g k @ [\<bar>amount t\<bar>] else group_of g k)"
  by (cases "map_of g (normalizeDesc t)")
     (auto simp add: groupDesc_def group_of_def update_conv' Let_def)

lemma groupDescs_fold:
  "group_of (foldl groupDesc g xs) k
   = group_of g k @ map (\<lambda>t. \<bar>amount t\<bar>) (filter (\<lambda>t. normalizeDesc t = k) xs)"
  by (induction xs arbitrary: g) (simp_all add: group_of_groupDesc)

text \<open>
  \<^verbatim>\<open>descGroups\<close> holds, for each normalized description, the absolute amounts of the
  records that have it, in batch order.
\<close>

lemma groupDescs_group:
  "group_of (groupDescs data) k
   = map (\<lambda>t. \<bar>amount t\<bar>) (filter (\<lambda>t. normalizeDesc t = k) data)"
  by (simp add: groupDescs_def groupDescs_fold) (simp add: group_of_def)

subsection \<open>The fields of a tagged record\<close>

lemma tag_raw [simp]:
  "date (tag s m sd g t) = date t"
  "description (tag s m sd g t) = description t"
  "amount (tag s m sd g t) = amount t"
  "category (tag s m sd g t) = category t"
  "notes' (tag s m sd g t) = notes' t"
  by (simp_all add: tag_def Let_def)

lemma tag_derived:
  "duplicateFlag (tag s m sd g t) = Some (get_or_0 s (dupKey t) > 1)"
  "anomalyScore (tag s m sd g t) =
     Some (parseFloat_toFixed_2 (if sd > 0 then fdiv (fsub \<bar>amount t\<bar> m) sd else 0))"
  "isRecurring (tag s m sd g t) = Some (length (group_of g (normalizeDesc t)) \<ge> 2)"
  by (simp_all add: tag_def Let_def)

lemma tag_keys [simp]:
  "dupKey (tag s m sd g t) = dupKey t"
  "normalizeDesc (tag s m sd g t) = normalizeDesc t"
  by (simp_all add: dupKey_def normalizeDesc_def)

text \<open>Tagging overwrites the three analytics fields, whatever they held.\<close>

lemma tag_tag: "tag s m sd g (tag s' m' sd' g' t) = tag s m sd g t"
  by (simp add: tag_def Let_def dupKey_def normalizeDesc_def)

lemma analytics_map:
  "performAdvancedAnalytics data =
     map (tag (countKeys data) (mean_of (map (\<lambda>t. \<bar>amount t\<bar>) data))
              (stdDev_of (map (\<lambda>t. \<bar>amount t\<bar>) data)) (groupDescs data)) data"
  by (simp add: performAdvancedAnalytics_def Let_def)

lemma analytics_nth:
  "i < length data \<Longrightarrow>
   performAdvancedAnalytics data ! i =
     tag (countKeys data) (mean_of (map (\<lambda>t. \<bar>amount t\<bar>) data))
         (stdDev_of (map (\<lambda>t. \<bar>amount t\<bar>) data)) (groupDescs data) (data ! i)"
  by (simp add: analytics_map)

text \<open>The flags in terms of the batch.\<close>

lemma duplicateFlag_map:
  "map duplicateFlag (performAdvancedAnalytics data) =
     map (\<lambda>t. Some (2 \<le> length (filter (\<lambda>u. dupKey u = dupKey t) data))) data"
  by (auto simp add: analytics_map tag_derived countKeys_count)

lemma isRecurring_map:
  "map isRecurring (performAdvancedAnalytics data) =
     map (\<lambda>t. Some (2 \<le> length (filter (\<lambda>u. normalizeDesc u = normalizeDesc t) data))) data"
  by (simp add: analytics_map tag_derived groupDescs_group)

lemma anomalyScore_map:
  "map anomalyScore (performAdvancedAnalytics data) =
     map (\<lambda>t. Some (parseFloat_toFixed_2
                      (if stdDev_of (map (\<lambda>t. \<bar>amount t\<bar>) data) > 0
                       then fdiv (fsub \<bar>amount t\<bar> (mean_of (map (\<lambda>t. \<bar>amount t\<bar>) data)))
                                 (stdDev_of (map (\<lambda>t. \<bar>amount t\<bar>) data))
                       else 0))) data"
  by (simp add: analytics_map tag_derived)

lemma duplicateFlag_count:
  "i < length data \<Longrightarrow>
   duplicateFlag (performAdvancedAnalytics data ! i) =
     Some (2 \<le> length (filter (\<lambda>t. dupKey t = dupKey (data ! i)) data))"
  by (simp add: analytics_nth tag_derived countKeys_count) arith

lemma isRecurring_count:
  "i < length data \<Longrightarrow>
   isRecurring (performAdvancedAnalytics data ! i) =
     Some (2 \<le> length (filter (\<lambda>t. normalizeDesc t = normalizeDesc (data ! i)) data))"
  by (simp add: analytics_nth tag_derived groupDescs_group)

lemma filter_two:
  assumes "i < length xs" "j < length xs" "i \<noteq> j" "P (xs ! i)" "P (xs ! j)"
  shows "2 \<le> length (filter P xs)"
proof -
  have "{i, j} \<subseteq> {k. k < length xs \<and> P (xs ! k)}"
    using assms by simp
  then have "card {i, j} \<le> card {k. k < length xs \<and> P (xs ! k)}"
    by (intro card_mono) simp_all
  then show ?thesis
    using assms(3) by (simp add: length_filter_conv_card)
qed

subsection \<open>Re-analysing an analysed batch\<close>

lemma countKey_tag: "countKey seen (tag s m sd g t) = countKey seen t"
  by (simp add: countKey_def)

lemma groupDesc_tag: "groupDesc dg (tag s m sd g t) = groupDesc dg t"
  by (simp add: groupDesc_def Let_def split: option.splits)

lemma foldl_countKey_tag:
  "foldl countKey seen (map (tag s m sd g) xs) = foldl countKey seen xs"
  by (induction xs arbitrary: seen) (simp_all add: countKey_tag)

lemma foldl_groupDesc_tag:
  "foldl groupDesc dg (map (tag s m sd g) xs) = foldl groupDesc dg xs"
  by (induction xs arbitrary: dg) (simp_all add: groupDesc_tag)

lemma countKeys_tag: "countKeys (map (tag s m sd g) xs) = countKeys xs"
  by (simp add: countKeys_def foldl_countKey_tag)

lemma groupDescs_tag: "groupDescs (map (tag s m sd g) xs) = groupDescs xs"
  by (simp add: groupDescs_def foldl_groupDesc_tag)

lemma amounts_tag:
  "map (\<lambda>t. \<bar>amount t\<bar>) (map (tag s m sd g) xs) = map (\<lambda>t. \<bar>amount t\<bar>) xs"
  by (simp add: comp_def)

text \<open>
  Claim C5. Analysing the output of an analysis gives that output again: every record
  keeps its \<^verbatim>\<open>duplicateFlag\<close>, \<^verbatim>\<open>anomalyScore\<close> and \<^verbatim>\<open>isRecurring\<close> (and its
  other fields), since the analysis reads only \<^verbatim>\<open>date\<close>, \<^verbatim>\<open>description\<close> and
  \<^verbatim>\<open>amount\<close>, which it does not change.
\<close>

theorem analytics_idempotent:
  "performAdvancedAnalytics (performAdvancedAnalytics data) = performAdvancedAnalytics data"
proof -
  let ?f = "tag (countKeys data) (mean_of (map (\<lambda>t. \<bar>amount t\<bar>) data))
              (stdDev_of (map (\<lambda>t. \<bar>amount t\<bar>) data)) (groupDescs data)"
  have "performAdvancedAnalytics (map ?f data) = map ?f (map ?f data)"
    unfolding analytics_map [of "map ?f data"] countKeys_tag groupDescs_tag amounts_tag ..
  also have "\<dots> = map ?f data"
    by (simp add: comp_def tag_tag)
  finally show ?thesis
    by (simp only: analytics_map [of data])
qed

subsection \<open>The frame of the analysis\<close>

text \<open>
  Claim C9. The analysed batch has the length of the input, and record by record, in the
  same order, the same \<^verbatim>\<open>date\<close>, \<^verbatim>\<open>description\<close>, \<^verbatim>\<open>amount\<close>, \<^verbatim>\<open>category\<close>
  and \<^verbatim>\<open>notes\<close>; the empty batch gives the empty batch.
\<close>

theorem analytics_frame:
  "length (performAdvancedAnalytics data) = length data
   \<and> map date (performAdvancedAnalytics data) = map date data
   \<and> map description (performAdvancedAnalytics data) = map description data
   \<and> map amount (performAdvancedAnalytics data) = map amount data
   \<and> map category (performAdvancedAnalytics data) = map category data
   \<and> map notes' (performAdvancedAnalytics data) = map notes' data
   \<and> performAdvancedAnalytics [] = []"
  by (simp add: analytics_map comp_def)

subsection \<open>Duplicates and recurrence\<close>

text \<open>
  Claim C10. Two different records of a batch with the same \<^verbatim>\<open>date\<close>,
  \<^verbatim>\<open>description\<close> and \<^verbatim>\<open>amount\<close> are both flagged as duplicates and both flagged as
  recurring.
\<close>

theorem exact_duplicates_flagged_and_recurring:
  assumes "i < length data" and "j < length data" and "i \<noteq> j"
    and "date (data ! i) = date (data ! j)"
    and "description (data ! i) = description (data ! j)"
    and "amount (data ! i) = amount (data ! j)"
  shows "duplicateFlag (performAdvancedAnalytics data ! i) = Some True
       \<and> isRecurring (performAdvancedAnalytics data ! i) = Some True
       \<and> duplicateFlag (performAdvancedAnalytics data ! j) = Some True
       \<and> isRecurring (performAdvancedAnalytics data ! j) = Some True"
proof -
  have k: "dupKey (data ! i) = dupKey (data ! j)"
    using assms(4-6) by (simp add: dupKey_def)
  have n: "normalizeDesc (data ! i) = normalizeDesc (data ! j)"
    using assms(5) by (simp add: normalizeDesc_def)
  have "2 \<le> length (filter (\<lambda>t. dupKey t = dupKey (data ! i)) data)"
    using assms(1-3) k by (intro filter_two [of i _ j]) simp_all
  moreover have "2 \<le> length (filter (\<lambda>t. normalizeDesc t = normalizeDesc (data ! i)) data)"
    using assms(1-3) n by (intro filter_two [of i _ j]) simp_all
  ultimately show ?thesis
    using assms(1,2) k n by (simp add: duplicateFlag_count isRecurring_count)
qed

theorem exact_duplicates_flagged_and_recurring_witness:
  "(0::nat) < length twice_batch \<and> (1::nat) < length twice_batch \<and> (0::nat) \<noteq> 1
   \<and> date (twice_batch ! 0) = date (twice_batch ! 1)
   \<and> description (twice_batch ! 0) = description (twice_batch ! 1)
   \<and> amount (twice_batch ! 0) = amount (twice_batch ! 1)
   \<and> duplicateFlag (performAdvancedAnalytics twice_batch ! 0) = Some True
   \<and> isRecurring (performAdvancedAnalytics twice_batch ! 0) = Some True
   \<and> duplicateFlag (performAdvancedAnalytics twice_batch ! 1) = Some True
   \<and> isRecurring (performAdvancedAnalytics twice_batch ! 1) = Some True"
  using exact_duplicates_flagged_and_recurring [of 0 twice_batch 1]
  by (simp add: twice_batch_def)

lemma normalize_netflix:
  "normalize ''Netflix Subscription 123'' = ''netflix subscription''"
  "normalize ''netflix subscription 456'' = ''netflix subscription''"
  by code_simp+

text \<open>
  Claim C4. A record is flagged as recurring exactly when at least two records of the
  batch (itself included) have its normalized description, where normalizing is
  lower-casing, then removing the decimal digits, then trimming white space at both
  ends. \<^verbatim>\<open>Netflix Subscription 123\<close> and \<^verbatim>\<open>netflix subscription 456\<close> both normalize
  to \<^verbatim>\<open>netflix subscription\<close>, and a batch of the two flags both.
\<close>

theorem recurring_iff_shared_normalized_description:
  "map isRecurring (performAdvancedAnalytics data) =
     map (\<lambda>t. Some (2 \<le> length (filter (\<lambda>u. normalize (description u)
                                                = normalize (description t)) data))) data
   \<and> normalize s = trim (filter (\<lambda>c. \<not> isDigit c) (map toLowerCase_char s))
   \<and> normalize ''Netflix Subscription 123'' = ''netflix subscription''
   \<and> normalize ''netflix subscription 456'' = ''netflix subscription''
   \<and> map isRecurring (performAdvancedAnalytics netflix_batch) = [Some True, Some True]"
  by (simp add: isRecurring_map normalizeDesc_def normalize_netflix netflix_batch_def txn_def)
     (simp add: normalize_def replace_digits_def toLowerCase_def)

lemma numToString_40: "numToString 40 = ''40''" "numToString (- 40) = ''-40''"
  by code_simp+

text \<open>
  Claim C1, at a batch of two records that differ in \<^verbatim>\<open>description\<close> and in
  \<^verbatim>\<open>amount\<close>: both have the key \<^verbatim>\<open>2024-03-01-REFUND--40\<close>, and both are flagged as
  duplicates.
\<close>

theorem duplicate_key_collision:
  "map duplicateFlag (performAdvancedAnalytics refund_batch) = [Some True, Some True]
   \<and> map dupKey refund_batch = [''2024-03-01-REFUND--40'', ''2024-03-01-REFUND--40'']
   \<and> map date refund_batch = [''2024-03-01'', ''2024-03-01'']
   \<and> map description refund_batch = [''REFUND-'', ''REFUND'']
   \<and> map amount refund_batch = [40, - 40]"
  by (simp add: duplicateFlag_map refund_batch_def txn_def dupKey_def numToString_40)

subsection \<open>Rounding to binary64\<close>

lemma pow2_powi: "pow2 e = 2 powi e"
  by (simp add: pow2_def power_int_def field_simps)

lemma pow2_pos [simp]: "0 < pow2 e"
  by (simp add: pow2_powi)

lemma pow2_nonneg [simp]: "0 \<le> pow2 e"
  by (rule less_imp_le) simp

lemma pow2_52: "pow2 52 = 2 ^ 52"
  by (simp add: pow2_def)


lemma pow2_diff: "pow2 (a - b) = pow2 a / pow2 b"
  by (simp add: pow2_powi power_int_diff)

lemma pow2_nat: "0 \<le> e \<Longrightarrow> pow2 e = 2 ^ nat e"
  by (simp add: pow2_def)


lemma ilog2_bounds:
  assumes "0 < x"
  shows "pow2 (ilog2 x) \<le> x" and "x < pow2 (ilog2 x + 1)"
proof -
  obtain p q where pq: "quotient_of x = (p, q)"
    by (cases "quotient_of x")
  have q: "0 < q"
    using pq by (rule quotient_of_denom_pos)
  have x: "x = of_int p / of_int q"
    using pq by (simp add: quotient_of_div)
  have p: "0 < p"
    using assms q unfolding x by (simp add: zero_less_divide_iff)
  define d where "d = bitlen p - bitlen q"
  have bp: "1 \<le> bitlen p" and bq: "1 \<le> bitlen q"
    using p q by (simp_all add: bitlen_alt_def)
  have "(2::int) ^ nat (bitlen p - 1) \<le> p" "p < 2 ^ nat (bitlen p)"
       "(2::int) ^ nat (bitlen q - 1) \<le> q" "q < 2 ^ nat (bitlen q)"
    using bitlen_bounds [OF p] bitlen_bounds [OF q] by simp_all
  then have "(of_int ((2::int) ^ nat (bitlen p - 1)) :: rat) \<le> of_int p"
       "(of_int p :: rat) < of_int (2 ^ nat (bitlen p))"
       "(of_int ((2::int) ^ nat (bitlen q - 1)) :: rat) \<le> of_int q"
       "(of_int q :: rat) < of_int (2 ^ nat (bitlen q))"
    by (simp_all only: of_int_le_iff of_int_less_iff)
  then have P: "pow2 (bitlen p - 1) \<le> of_int p" "of_int p < pow2 (bitlen p)"
    and Q: "pow2 (bitlen q - 1) \<le> of_int q" "of_int q < pow2 (bitlen q)"
    using bp bq by (simp_all add: pow2_nat)
  have qpos: "(0::rat) < of_int q" and ppos: "(0::rat) < of_int p"
    using p q by simp_all
  have lo: "pow2 (d - 1) < x"
  proof -
    have "pow2 (d - 1) = pow2 (bitlen p - 1) / pow2 (bitlen q)"
      by (simp add: d_def pow2_diff [symmetric] algebra_simps)
    also have "\<dots> \<le> of_int p / pow2 (bitlen q)"
      using P(1) by (intro divide_right_mono) simp_all
    also have "\<dots> < of_int p / of_int q"
      using Q(2) ppos qpos by (intro divide_strict_left_mono) simp_all
    finally show ?thesis by (simp add: x)
  qed
  have hi: "x < pow2 (d + 1)"
  proof -
    have "x = of_int p / of_int q" by (rule x)
    also have "\<dots> < pow2 (bitlen p) / of_int q"
      using P(2) qpos by (intro divide_strict_right_mono) simp_all
    also have "\<dots> \<le> pow2 (bitlen p) / pow2 (bitlen q - 1)"
      using Q(1) qpos by (intro divide_left_mono) (simp_all add: bq)
    also have "\<dots> = pow2 (d + 1)"
      by (simp add: d_def pow2_diff [symmetric] algebra_simps)
    finally show ?thesis .
  qed
  have il: "ilog2 x = (if pow2 d \<le> x then d else d - 1)"
    by (simp add: ilog2_def pq d_def Let_def)
  show "pow2 (ilog2 x) \<le> x"
    using lo by (simp add: il)
  show "x < pow2 (ilog2 x + 1)"
    using hi by (simp add: il)
qed

lemma round_half_even_bounds:
  "y - 1 / 2 \<le> of_int (round_half_even y)" "of_int (round_half_even y) \<le> y + 1 / 2"
  unfolding round_half_even_def Let_def by (auto; linarith)+

lemma fl_0 [simp]: "fl 0 = 0"
  by (simp add: fl_def)

lemma fl_pos: "0 < x \<Longrightarrow> 0 < fl x"
proof -
  assume x: "0 < x"
  define q where "q = pow2 (ilog2 \<bar>x\<bar> - 52)"
  have q: "0 < q" by (simp add: q_def)
  have "pow2 (ilog2 x) \<le> x" using x by (rule ilog2_bounds)
  then have "pow2 (ilog2 x) / q \<le> x / q"
    using q by (intro divide_right_mono) simp_all
  moreover have "pow2 (ilog2 x) / q = 2 ^ 52"
    using x by (simp add: q_def pow2_diff [symmetric] pow2_52)
  ultimately have "2 ^ 52 \<le> x / q" by simp
  moreover have "(1::rat) \<le> 2 ^ 52" by simp
  ultimately have "1 \<le> x / q" by (rule order_trans [rotated])
  then have "0 < (of_int (round_half_even (x / q)) :: rat)"
    using round_half_even_bounds(1) [of "x / q"] by linarith
  then have "0 < of_int (round_half_even (x / q)) * q"
    using q by (intro mult_pos_pos)
  then show ?thesis
    using x by (simp add: fl_def q_def Let_def)
qed

lemma round_half_even_minus: "round_half_even (- y) = - round_half_even y"
proof (cases "y \<in> \<int>")
  case True
  then obtain n where "y = of_int n" by (auto elim: Ints_cases)
  then show ?thesis
    by (simp add: round_half_even_def flip: of_int_minus)
next
  case False
  then have ne: "y \<noteq> of_int \<lfloor>y\<rfloor>"
    by (metis Ints_of_int)
  then have f: "\<lfloor>- y\<rfloor> = - \<lfloor>y\<rfloor> - 1"
    by (simp add: floor_minus ceiling_altdef)
  have r: "0 < y - of_int \<lfloor>y\<rfloor>"
    using ne floor_correct [of y] by linarith
  show ?thesis
    unfolding round_half_even_def Let_def f using r
    by (auto simp add: algebra_simps)
qed

lemma fl_minus: "fl (- x) = - fl x"
  by (simp add: fl_def Let_def round_half_even_minus)

lemma fl_neg: "x < 0 \<Longrightarrow> fl x < 0"
  using fl_pos [of "- x"] by (simp add: fl_minus)

lemma fl_sign [simp]:
  "0 < fl x \<longleftrightarrow> 0 < x" "fl x < 0 \<longleftrightarrow> x < 0" "fl x = 0 \<longleftrightarrow> x = 0"
  "fl x \<le> 0 \<longleftrightarrow> x \<le> 0" "0 \<le> fl x \<longleftrightarrow> 0 \<le> x"
  using fl_pos [of x] fl_neg [of x] by (cases "x = 0"; cases "0 < x"; force)+

subsection \<open>Sorting\<close>

text \<open>
  For a comparator that agrees with the order of a key, \<open>js_sort\<close> is the stable
  insertion sort by that key.
\<close>

lemma insort_cmp_key:
  "\<forall>y \<in> set ys. cmp x y \<le> 0 \<longleftrightarrow> f x \<le> f y \<Longrightarrow> insort_cmp cmp x ys = insort_key f x ys"
  by (induction ys) simp_all

lemma js_sort_key:
  fixes f :: "'a \<Rightarrow> 'k::linorder"
  assumes "\<forall>x \<in> set xs. \<forall>y \<in> set xs. cmp x y \<le> 0 \<longleftrightarrow> f x \<le> f y"
  shows "js_sort cmp xs = sort_key f xs"
proof -
  have "set ys \<subseteq> set xs \<Longrightarrow> foldr (insort_cmp cmp) ys [] = foldr (insort_key f) ys []" for ys
  proof (induction ys)
    case Nil
    then show ?case by simp
  next
    case (Cons y ys)
    then have "foldr (insort_cmp cmp) ys [] = sort_key f ys"
      by (simp add: sort_key_def)
    moreover have "\<forall>z \<in> set (sort_key f ys). cmp y z \<le> 0 \<longleftrightarrow> f y \<le> f z"
      using Cons.prems assms by auto
    ultimately show ?case
      by (simp add: insort_cmp_key sort_key_def)
  qed
  then show ?thesis
    by (simp add: js_sort_def sort_key_def)
qed

lemma filter_hd_first:
  "filter P xs = y # ys \<Longrightarrow> \<exists>i < length xs. xs ! i = y \<and> (\<forall>j < i. \<not> P (xs ! j))"
proof -
  assume "filter P xs = y # ys"
  then obtain us vs where xs: "xs = us @ y # vs" and us: "\<forall>u \<in> set us. \<not> P u"
    by (auto simp add: filter_eq_Cons_iff)
  have "length us < length xs" "xs ! length us = y"
    by (simp_all add: xs)
  moreover have "\<forall>j < length us. \<not> P (xs ! j)"
    using us by (simp add: xs nth_append)
  ultimately show ?thesis by blast
qed

text \<open>The head of a stable sort is the first element of the least key.\<close>

lemma sort_key_hd_first:
  fixes f :: "'a \<Rightarrow> 'k::linorder"
  assumes "xs \<noteq> []"
  shows "\<exists>i < length xs. sort_key f xs ! 0 = xs ! i
           \<and> (\<forall>j < length xs. f (xs ! i) \<le> f (xs ! j))
           \<and> (\<forall>j < i. f (xs ! i) < f (xs ! j))"
proof -
  define ys where "ys = sort_key f xs"
  have sorted: "sorted (map f ys)" and set: "set ys = set xs"
    by (simp_all add: ys_def)
  have "set ys \<noteq> {}"
    using assms by (simp add: set)
  then obtain h tl where ys: "ys = h # tl"
    by (cases ys) auto
  have least: "f h \<le> f x" if "x \<in> set xs" for x
    using sorted that unfolding set [symmetric] ys by auto
  have "filter (\<lambda>y. f y = f h) ys = filter (\<lambda>y. f y = f h) xs"
    unfolding ys_def by (rule sort_key_stable)
  then have "filter (\<lambda>y. f y = f h) xs = h # filter (\<lambda>y. f y = f h) tl"
    by (simp add: ys)
  then obtain i where i: "i < length xs" "xs ! i = h" "\<forall>j < i. f (xs ! j) \<noteq> f h"
    using filter_hd_first [of "\<lambda>y. f y = f h" xs h] by blast
  have a: "f (xs ! i) \<le> f (xs ! j)" if "j < length xs" for j
    using least [of "xs ! j"] that by (simp add: i(2))
  have b: "f (xs ! i) < f (xs ! j)" if "j < i" for j
  proof -
    have "j < length xs" using that i(1) by simp
    then have "f (xs ! i) \<le> f (xs ! j)" by (rule a)
    moreover have "f (xs ! j) \<noteq> f (xs ! i)"
      using i(3) that by (simp add: i(2))
    ultimately show ?thesis by simp
  qed
  have "sort_key f xs ! 0 = xs ! i"
    by (simp add: ys_def [symmetric] ys i(2))
  then show ?thesis
    using i(1) a b by blast
qed

lemma js_sort_desc_amount:
  "js_sort (\<lambda>a b. fsub (amount b) (amount a)) ts = sort_key (\<lambda>t. - amount t) ts"
  by (rule js_sort_key) (simp add: fsub_def)

lemma js_sort_asc_amount:
  "js_sort (\<lambda>a b. fsub (amount a) (amount b)) ts = sort_key (\<lambda>t. amount t) ts"
  by (rule js_sort_key) (simp add: fsub_def)

text \<open>
  Claim C8. For a non-empty batch the summary exists; its \<^verbatim>\<open>highest\<close> is the record
  at the first position whose amount is the maximum of the batch (no later amount is
  larger, every earlier amount is smaller), and its \<^verbatim>\<open>lowest\<close> is the record at the
  first position whose amount is the minimum.
\<close>

theorem extremes_first_occurrence:
  assumes "ts \<noteq> []"
  shows "\<exists>s i k. getAnalyticsSummary engine ts = Some s
           \<and> i < length ts \<and> highest s = ts ! i
           \<and> (\<forall>j < length ts. amount (ts ! j) \<le> amount (ts ! i))
           \<and> (\<forall>j < i. amount (ts ! j) < amount (ts ! i))
           \<and> k < length ts \<and> lowest s = ts ! k
           \<and> (\<forall>j < length ts. amount (ts ! k) \<le> amount (ts ! j))
           \<and> (\<forall>j < k. amount (ts ! k) < amount (ts ! j))"
proof -
  obtain i where i: "i < length ts" "sort_key (\<lambda>t. - amount t) ts ! 0 = ts ! i"
      "\<forall>j < length ts. amount (ts ! j) \<le> amount (ts ! i)"
      "\<forall>j < i. amount (ts ! j) < amount (ts ! i)"
    using sort_key_hd_first [OF assms, of "\<lambda>t. - amount t"] by auto
  obtain k where k: "k < length ts" "sort_key (\<lambda>t. amount t) ts ! 0 = ts ! k"
      "\<forall>j < length ts. amount (ts ! k) \<le> amount (ts ! j)"
      "\<forall>j < k. amount (ts ! k) < amount (ts ! j)"
    using sort_key_hd_first [OF assms, of "\<lambda>t. amount t"] by auto
  obtain s where s: "getAnalyticsSummary engine ts = Some s"
      "highest s = sort_key (\<lambda>t. - amount t) ts ! 0"
      "lowest s = sort_key (\<lambda>t. amount t) ts ! 0"
    using assms by (simp add: getAnalyticsSummary_def js_sort_desc_amount js_sort_asc_amount)
  show ?thesis
    using s i k by (intro exI [of _ s] exI [of _ i] exI [of _ k]) simp
qed


theorem extremes_first_occurrence_witness:
  "tie_batch \<noteq> []
   \<and> (\<exists>s. getAnalyticsSummary no_fallback tie_batch = Some s
          \<and> highest s = tie_batch ! 0 \<and> lowest s = tie_batch ! 1)"
proof -
  have ne: "tie_batch \<noteq> []"
    by (simp add: tie_batch_def)
  have len: "length tie_batch = 4"
    by (simp add: tie_batch_def)
  have am: "amount (tie_batch ! 0) = 50" "amount (tie_batch ! 1) = - 20"
      "amount (tie_batch ! 2) = 50" "amount (tie_batch ! 3) = - 20"
    by (simp_all add: tie_batch_def txn_def)
  obtain s i k where s: "getAnalyticsSummary no_fallback tie_batch = Some s"
    and i: "i < length tie_batch" "highest s = tie_batch ! i"
      "\<forall>j < length tie_batch. amount (tie_batch ! j) \<le> amount (tie_batch ! i)"
      "\<forall>j < i. amount (tie_batch ! j) < amount (tie_batch ! i)"
    and k: "k < length tie_batch" "lowest s = tie_batch ! k"
      "\<forall>j < length tie_batch. amount (tie_batch ! k) \<le> amount (tie_batch ! j)"
      "\<forall>j < k. amount (tie_batch ! k) < amount (tie_batch ! j)"
    using extremes_first_occurrence [where engine = no_fallback, OF ne] by blast
  have hi: "amount (tie_batch ! 0) \<le> amount (tie_batch ! i)"
    using i(3) len by simp
  have hi': "0 < i \<Longrightarrow> amount (tie_batch ! 0) < amount (tie_batch ! i)"
    using i(4) by simp
  have "i = 0 \<or> i = 1 \<or> i = 2 \<or> i = 3"
    using i(1) len by arith
  then have i0: "i = 0"
    using hi hi' am by (elim disjE) simp_all
  have lo: "amount (tie_batch ! k) \<le> amount (tie_batch ! 1)"
    using k(3) len by simp
  have lo': "1 < k \<Longrightarrow> amount (tie_batch ! k) < amount (tie_batch ! 1)"
    using k(4) by simp
  have "k = 0 \<or> k = 1 \<or> k = 2 \<or> k = 3"
    using k(1) len by arith
  then have k1: "k = 1"
    using lo lo' am by (elim disjE) simp_all
  show ?thesis
    using ne s i(2) k(2) i0 k1 by simp
qed

subsection \<open>The summary of a batch without spending\<close>

lemma foldl_addSpike_nonneg:
  "list_all (\<lambda>t. \<not> amount t < 0) ts \<Longrightarrow> foldl addSpike m ts = m"
  by (induction ts arbitrary: m) (simp_all add: addSpike_def)

lemma foldl_addSpending_nonneg:
  "list_all (\<lambda>t. \<not> amount t < 0) ts \<Longrightarrow> foldl addSpending m ts = m"
  by (induction ts arbitrary: m) (simp_all add: addSpending_def)

lemma filter_neg_nonneg:
  "list_all (\<lambda>t. \<not> amount t < 0) ts \<Longrightarrow> filter (\<lambda>t. amount t < 0) ts = []"
  by (induction ts) simp_all

lemma js_sort_Nil [simp]: "js_sort cmp [] = []"
  by (simp add: js_sort_def)

lemma Object_entries_Nil [simp]: "Object_entries [] = []"
  by (simp add: Object_entries_def)

text \<open>
  Claim C6. \<^verbatim>\<open>getAnalyticsSummary\<close> returns \<^verbatim>\<open>null\<close> exactly for the empty batch.
  For a non-empty batch in which every amount is positive the summary has
  \<^verbatim>\<open>totalSpending\<close> 0 and no entry in \<^verbatim>\<open>spikesData\<close>, and \<^verbatim>\<open>getChartData\<close>, the
  aggregation by category, returns no entry.
\<close>

theorem summary_absent_iff_empty_and_income_only:
  "(getAnalyticsSummary engine ts = None \<longleftrightarrow> ts = [])
   \<and> (ts \<noteq> [] \<and> (\<forall>t \<in> set ts. 0 < amount t) \<longrightarrow>
        (\<exists>s. getAnalyticsSummary engine ts = Some s \<and> totalSpending s = 0 \<and> spikesData s = [])
        \<and> getChartData ts = Inr [])"
proof -
  have 1: "getAnalyticsSummary engine ts = None \<longleftrightarrow> ts = []"
    by (simp add: getAnalyticsSummary_def)
  have 2: "(\<exists>s. getAnalyticsSummary engine ts = Some s \<and> totalSpending s = 0 \<and> spikesData s = [])
           \<and> getChartData ts = Inr []"
    if ne: "ts \<noteq> []" and pos: "\<forall>t \<in> set ts. 0 < amount t"
  proof -
    have nn: "list_all (\<lambda>t. \<not> amount t < 0) ts"
      using pos by (auto simp add: list_all_iff)
    have "\<not> list_ex (\<lambda>t. amount t < 0 \<and> toLowerCase (category t) = ''constructor'') ts"
      using pos by (auto simp add: list_ex_iff)
    then have "getChartData ts = Inr []"
      by (simp add: getChartData_def spendingByCategory_def foldl_addSpending_nonneg [OF nn])
    moreover have "\<exists>s. getAnalyticsSummary engine ts = Some s \<and> totalSpending s = 0 \<and> spikesData s = []"
      using ne
      by (simp add: getAnalyticsSummary_def spikesMap_def foldl_addSpike_nonneg [OF nn]
                    filter_neg_nonneg [OF nn])
    ultimately show ?thesis by simp
  qed
  show ?thesis
    using 1 2 by blast
qed

theorem summary_absent_iff_empty_and_income_only_witness:
  "income_batch \<noteq> [] \<and> list_all (\<lambda>t. 0 < amount t) income_batch
   \<and> getAnalyticsSummary no_fallback income_batch \<noteq> None
   \<and> (\<exists>s. getAnalyticsSummary no_fallback income_batch = Some s \<and> totalSpending s = 0 \<and> spikesData s = [])
   \<and> getChartData income_batch = Inr []
   \<and> getAnalyticsSummary no_fallback [] = None"
proof -
  have h: "income_batch \<noteq> [] \<and> (\<forall>t \<in> set income_batch. 0 < amount t)"
    by (simp add: income_batch_def txn_def)
  have "list_all (\<lambda>t. 0 < amount t) income_batch"
    using h by (simp add: list_all_iff)
  then show ?thesis
    using h summary_absent_iff_empty_and_income_only [where engine = no_fallback and ts = income_batch]
          summary_absent_iff_empty_and_income_only [where engine = no_fallback and ts = "[]"]
    by blast
qed

subsection \<open>Calendar order and time values\<close>

lemma div_next:
  fixes n c :: int
  assumes "0 < c"
  shows "(n + 1) div c = n div c + (if (n + 1) mod c = 0 then 1 else 0)"
proof (cases "(n + 1) mod c = 0")
  case True
  then obtain k where k: "n + 1 = c * k"
    by (metis mod_eq_0_iff_dvd dvd_def)
  then have n: "n = c * (k - 1) + (c - 1)"
    by (simp add: algebra_simps)
  have "n div c = k - 1"
    using assms by (subst n) (simp add: div_pos_pos_trivial)
  moreover have "(n + 1) div c = k"
    using assms by (simp add: k)
  ultimately show ?thesis
    using True by simp
next
  case False
  define r where "r = n mod c"
  have r: "0 \<le> r" "r < c" "n = c * (n div c) + r"
    using assms by (simp_all add: r_def)
  have "r + 1 \<noteq> c"
  proof
    assume "r + 1 = c"
    then have "n + 1 = c * (n div c + 1)"
      using r(3) by (simp add: algebra_simps)
    then have "(n + 1) mod c = 0"
      by (metis mod_mult_self1_is_0)
    with False show False by simp
  qed
  then have "r + 1 < c" using r(2) by simp
  then have "(c * (n div c) + (r + 1)) div c = n div c"
    using r(1) assms by (simp add: div_pos_pos_trivial)
  moreover have "(n + 1) div c = (c * (n div c) + (r + 1)) div c"
    using r(3) by (simp add: add.assoc [symmetric])
  ultimately show ?thesis
    using False by simp
qed

lemma mod_shift:
  fixes y b :: int
  shows "(y - b * k) mod b = y mod b"
  using mod_mult_self2 [of y b "- k"] by simp

lemma m4: "((y::int) - 1968) mod 4 = y mod 4"
  using mod_shift [of y 4 492] by simp

lemma m100: "((y::int) - 1900) mod 100 = y mod 100"
  using mod_shift [of y 100 19] by simp

lemma m400: "((y::int) - 1600) mod 400 = y mod 400"
  using mod_shift [of y 400 4] by simp

lemma div_next':
  fixes n c :: int
  shows "0 < c \<Longrightarrow> n' = n + 1 \<Longrightarrow> n' div c = n div c + (if n' mod c = 0 then 1 else 0)"
  using div_next [of c n] by simp

lemma dayFromYear_Suc:
  "dayFromYear (y + 1) = dayFromYear y + 365 + (if isLeap y then 1 else 0)"
proof -
  define A where "A = (y - 1969) div 4"
  define B where "B = (y - 1901) div 100"
  define C where "C = (y - 1601) div 400"
  define p4 where "p4 \<longleftrightarrow> y mod 4 = 0"
  define p100 where "p100 \<longleftrightarrow> y mod 100 = 0"
  define p400 where "p400 \<longleftrightarrow> y mod 400 = 0"
  have e: "y + 1 - 1970 = y - 1969" "y + 1 - 1969 = y - 1968"
      "y + 1 - 1901 = y - 1900" "y + 1 - 1601 = y - 1600"
    by simp_all
  have a: "(y - 1968) div 4 = A + (if p4 then 1 else 0)"
    unfolding A_def p4_def m4 [of y, symmetric] by (rule div_next') simp_all
  have b: "(y - 1900) div 100 = B + (if p100 then 1 else 0)"
    unfolding B_def p100_def m100 [of y, symmetric] by (rule div_next') simp_all
  have c: "(y - 1600) div 400 = C + (if p400 then 1 else 0)"
    unfolding C_def p400_def m400 [of y, symmetric] by (rule div_next') simp_all
  have d: "p400 \<Longrightarrow> p100" "p100 \<Longrightarrow> p4"
    unfolding p4_def p100_def p400_def
    using mod_mod_cancel [of 100 400 y] mod_mod_cancel [of 4 100 y] by simp_all
  have L: "isLeap y \<longleftrightarrow> p4 \<and> (\<not> p100 \<or> p400)"
    by (simp add: isLeap_def p4_def p100_def p400_def)
  have "dayFromYear (y + 1) = 365 * (y - 1969) + (A + (if p4 then 1 else 0))
          - (B + (if p100 then 1 else 0)) + (C + (if p400 then 1 else 0))"
    unfolding dayFromYear_def e a b c ..
  moreover have "dayFromYear y = 365 * (y - 1970) + A - B + C"
    unfolding dayFromYear_def A_def B_def C_def ..
  ultimately show ?thesis
    unfolding L using d by (cases p4; cases p100; cases p400) simp_all
qed


lemma dayFromYear_less:
  assumes "y1 < y2"
  shows "dayFromYear y1 + 365 + (if isLeap y1 then 1 else 0) \<le> dayFromYear y2"
proof -
  have "y1 + 1 \<le> y2" using assms by simp
  then have "dayFromYear (y1 + 1) \<le> dayFromYear y2"
  proof (induction y2 rule: int_ge_induct)
    case base
    show ?case by simp
  next
    case (step i)
    have "dayFromYear i \<le> dayFromYear (i + 1)"
      by (simp add: dayFromYear_Suc)
    with step.IH show ?case by simp
  qed
  then show ?thesis
    by (simp add: dayFromYear_Suc)
qed

lemma month_cases:
  "1 \<le> m \<Longrightarrow> m \<le> 12 \<Longrightarrow>
   m = 1 \<or> m = 2 \<or> m = 3 \<or> m = 4 \<or> m = 5 \<or> m = 6 \<or> m = 7 \<or> m = 8 \<or> m = 9 \<or> m = 10
   \<or> m = 11 \<or> m = (12::int)"
  by arith

lemma daysBeforeMonth_Suc:
  assumes "1 \<le> m" "m < 12"
  shows "daysBeforeMonth y (m + 1) = daysBeforeMonth y m + daysInMonth y m"
proof -
  have "m = 1 \<or> m = 2 \<or> m = 3 \<or> m = 4 \<or> m = 5 \<or> m = 6 \<or> m = 7 \<or> m = 8 \<or> m = 9 \<or> m = 10
        \<or> m = 11"
    using assms by arith
  then show ?thesis
    by (elim disjE) (simp_all add: daysBeforeMonth_def daysInMonth_def)
qed

lemma daysInMonth_pos: "0 < daysInMonth y m"
  by (simp add: daysInMonth_def)

lemma daysBeforeMonth_less:
  assumes "1 \<le> m1" "m1 < m2" "m2 \<le> 12"
  shows "daysBeforeMonth y m1 + daysInMonth y m1 \<le> daysBeforeMonth y m2"
proof -
  have "m1 + 1 \<le> m2" using assms(2) by simp
  then have "m2 \<le> 12 \<longrightarrow> daysBeforeMonth y (m1 + 1) \<le> daysBeforeMonth y m2"
  proof (induction m2 rule: int_ge_induct)
    case base
    show ?case by simp
  next
    case (step i)
    show ?case
    proof
      assume i: "i + 1 \<le> 12"
      then have "daysBeforeMonth y (i + 1) = daysBeforeMonth y i + daysInMonth y i"
        using step.hyps assms(1) by (intro daysBeforeMonth_Suc) simp_all
      then show "daysBeforeMonth y (m1 + 1) \<le> daysBeforeMonth y (i + 1)"
        using step.IH i daysInMonth_pos [of y i] by simp
    qed
  qed
  then show ?thesis
    using assms by (simp add: daysBeforeMonth_Suc)
qed

lemma daysBeforeMonth_nonneg:
  assumes "1 \<le> m" "m \<le> 12"
  shows "0 \<le> daysBeforeMonth y m"
  using month_cases [OF assms]
  by (elim disjE) (simp_all add: daysBeforeMonth_def)

lemma daysBeforeMonth_year:
  assumes "1 \<le> m" "m \<le> 12"
  shows "daysBeforeMonth y m + daysInMonth y m \<le> 365 + (if isLeap y then 1 else 0)"
  using month_cases [OF assms]
  by (elim disjE) (simp_all add: daysBeforeMonth_def daysInMonth_def)

lemma makeDay_less_year:
  assumes "validYMD (y1, m1, d1)" "validYMD (y2, m2, d2)" "y1 < y2"
  shows "makeDay (y1, m1, d1) < makeDay (y2, m2, d2)"
proof -
  have "daysBeforeMonth y1 m1 + d1 \<le> 365 + (if isLeap y1 then 1 else 0)"
    using daysBeforeMonth_year [of m1 y1] assms(1) by (simp add: validYMD_def)
  moreover have "dayFromYear y1 + 365 + (if isLeap y1 then 1 else 0) \<le> dayFromYear y2"
    using assms(3) by (rule dayFromYear_less)
  moreover have "0 \<le> daysBeforeMonth y2 m2" "1 \<le> d2"
    using daysBeforeMonth_nonneg [of m2 y2] assms(2) by (simp_all add: validYMD_def)
  ultimately show ?thesis
    by (simp add: makeDay_def)
qed

lemma makeDay_less_month:
  assumes "validYMD (y, m1, d1)" "validYMD (y, m2, d2)" "m1 < m2"
  shows "makeDay (y, m1, d1) < makeDay (y, m2, d2)"
proof -
  have "daysBeforeMonth y m1 + daysInMonth y m1 \<le> daysBeforeMonth y m2"
    using assms by (intro daysBeforeMonth_less) (simp_all add: validYMD_def)
  then show ?thesis
    using assms(1,2) by (simp add: makeDay_def validYMD_def)
qed

lemma makeDay_le_iff:
  assumes "validYMD (y1, m1, d1)" "validYMD (y2, m2, d2)"
  shows "makeDay (y1, m1, d1) \<le> makeDay (y2, m2, d2)
         \<longleftrightarrow> y1 < y2 \<or> (y1 = y2 \<and> (m1 < m2 \<or> (m1 = m2 \<and> d1 \<le> d2)))"
proof -
  consider "y1 < y2" | "y2 < y1" | "y1 = y2" "m1 < m2" | "y1 = y2" "m2 < m1"
    | "y1 = y2" "m1 = m2"
    by linarith
  then show ?thesis
  proof cases
    case 1
    then show ?thesis
      using makeDay_less_year [OF assms 1] by simp
  next
    case 2
    then show ?thesis
      using makeDay_less_year [OF assms(2,1) 2] by simp
  next
    case 3
    then show ?thesis
      using makeDay_less_month [of y1 m1 d1 m2 d2] assms by simp
  next
    case 4
    then show ?thesis
      using makeDay_less_month [of y1 m2 d2 m1 d1] assms by simp
  next
    case 5
    then show ?thesis
      by (auto simp add: makeDay_def)
  qed
qed

lemma parseDate_valid: "parseDate s = Some ymd \<Longrightarrow> validYMD ymd"
  by (auto simp add: parseDate_def validYMD_def Let_def split: if_splits)

lemma getTime_parse:
  "parseDate a = Some ymd \<Longrightarrow> getTime engine a = Some (makeDay ymd * 86400000)"
  by (simp add: getTime_def)

text \<open>On dates of the form \<^verbatim>\<open>YYYY-MM-DD\<close> the order by time value is the calendar's.\<close>

lemma calendar_le_time_le:
  assumes "parseDate a \<noteq> None" "parseDate b \<noteq> None"
  shows "calendar_le a b \<longleftrightarrow> time_le engine a b"
proof -
  obtain y1 m1 d1 where a: "parseDate a = Some (y1, m1, d1)"
    using assms(1) by (cases "parseDate a") auto
  obtain y2 m2 d2 where b: "parseDate b = Some (y2, m2, d2)"
    using assms(2) by (cases "parseDate b") auto
  have "validYMD (y1, m1, d1)" "validYMD (y2, m2, d2)"
    using a b by (simp_all add: parseDate_valid)
  then show ?thesis
    using makeDay_le_iff [of y1 m1 d1 y2 m2 d2]
    by (simp add: calendar_le_def time_le_def getTime_parse [OF a] getTime_parse [OF b] a b)
qed

subsection \<open>The daily spikes\<close>

lemma map_of_addSpike:
  "map_of (addSpike m t) d =
     (if amount t < 0 \<and> date t = d
      then Some (fadd (num_or_0 (map_of m d)) \<bar>amount t\<bar>) else map_of m d)"
  by (simp add: addSpike_def update_conv')

lemma map_of_foldl_addSpike:
  "map_of (foldl addSpike m ts) d =
     (if filter (\<lambda>t. date t = d \<and> amount t < 0) ts = [] then map_of m d
      else Some (foldl fadd (num_or_0 (map_of m d))
                   (map (\<lambda>t. \<bar>amount t\<bar>) (filter (\<lambda>t. date t = d \<and> amount t < 0) ts))))"
proof (induction ts arbitrary: m)
  case Nil
  show ?case by simp
next
  case (Cons t ts)
  show ?case
    by (simp add: Cons.IH map_of_addSpike num_or_0_def)
qed

lemma map_of_spikesMap:
  "map_of (spikesMap ts) d =
     (if list_ex (\<lambda>t. date t = d \<and> amount t < 0) ts
      then Some (foldl fadd 0 (map (\<lambda>t. \<bar>amount t\<bar>) (filter (\<lambda>t. date t = d \<and> amount t < 0) ts)))
      else None)"
  by (simp add: spikesMap_def map_of_foldl_addSpike num_or_0_def filter_empty_conv list_ex_iff)

lemma distinct_addSpike:
  "distinct (map fst m) \<Longrightarrow> distinct (map fst (addSpike m t))"
  by (simp add: addSpike_def distinct_update)

lemma distinct_foldl_addSpike:
  "distinct (map fst m) \<Longrightarrow> distinct (map fst (foldl addSpike m ts))"
  by (induction ts arbitrary: m) (simp_all add: distinct_addSpike)

lemma distinct_spikesMap: "distinct (map fst (spikesMap ts))"
  by (simp add: spikesMap_def distinct_foldl_addSpike)

lemma spikesMap_keys:
  assumes "e \<in> set (spikesMap ts)"
  shows "\<exists>t \<in> set ts. date t = fst e \<and> amount t < 0"
proof -
  have "map_of (spikesMap ts) (fst e) = Some (snd e)"
    using assms distinct_spikesMap [of ts] by simp
  then show ?thesis
    by (auto simp add: map_of_spikesMap list_ex_iff split: if_splits)
qed

lemma distinct_fst_sort_key:
  "distinct (map fst (sort_key f xs)) = distinct (map fst xs)"
  by (simp add: distinct_map)

lemma map_of_sort_key:
  assumes "distinct (map fst xs)"
  shows "map_of (sort_key f xs) = map_of xs"
  using assms by (subst map_of_inject_set) (simp_all add: distinct_fst_sort_key)


lemma dateDiff_le_0:
  assumes "getTime engine a \<noteq> None" "getTime engine b \<noteq> None"
  shows "dateDiff engine a b \<le> 0 \<longleftrightarrow> timeKey engine a \<le> timeKey engine b"
proof -
  obtain x y where "getTime engine a = Some x" "getTime engine b = Some y"
    using assms by auto
  then show ?thesis
    by (simp add: dateDiff_def timeKey_def)
qed

lemma time_le_timeKey:
  assumes "getTime engine a \<noteq> None" "getTime engine b \<noteq> None"
  shows "time_le engine a b \<longleftrightarrow> timeKey engine a \<le> timeKey engine b"
proof -
  obtain x y where "getTime engine a = Some x" "getTime engine b = Some y"
    using assms by auto
  then show ?thesis
    by (simp add: time_le_def timeKey_def)
qed

lemma getTime_canonical: "parseDate a \<noteq> None \<Longrightarrow> getTime engine a \<noteq> None"
  by (cases "parseDate a") (simp_all add: getTime_def)

lemma spikesData_sort_key:
  assumes "\<forall>t \<in> set ts. amount t < 0 \<longrightarrow> getTime engine (date t) \<noteq> None"
  shows "js_sort (\<lambda>a b. dateDiff engine (fst a) (fst b)) (spikesMap ts)
         = sort_key (\<lambda>e. timeKey engine (fst e)) (spikesMap ts)"
proof (rule js_sort_key, intro ballI)
  fix x y
  assume "x \<in> set (spikesMap ts)" "y \<in> set (spikesMap ts)"
  then have "getTime engine (fst x) \<noteq> None" "getTime engine (fst y) \<noteq> None"
    using assms spikesMap_keys [of x ts] spikesMap_keys [of y ts] by auto
  then show "dateDiff engine (fst x) (fst y) \<le> 0
             \<longleftrightarrow> timeKey engine (fst x) \<le> timeKey engine (fst y)"
    by (rule dateDiff_le_0)
qed

lemma spike_batch_spikes:
  "js_sort (\<lambda>a b. dateDiff engine (fst a) (fst b)) (spikesMap spike_batch)
   = [(''2024-01-01'', 20), (''2024-01-02'', 50)]"
  by code_simp

lemma garbage_batch_spikes:
  "js_sort (\<lambda>a b. dateDiff no_fallback (fst a) (fst b)) (spikesMap garbage_batch)
   = [(''2024-03-05'', 30), (''garbage'', 10), (''2024-01-01'', 20)]"
  by code_simp

lemma parse_examples:
  "parseDate ''2024-01-01'' = Some (2024, 1, 1)" "parseDate ''2024-01-02'' = Some (2024, 1, 2)"
  "parseDate ''2024-03-05'' = Some (2024, 3, 5)" "parseDate ''garbage'' = None"
  by code_simp+

text \<open>
  Claim C7, as stated, at a batch of three days of spending whose second date string is
  no date: the comparator is \<^verbatim>\<open>NaN\<close> wherever that string takes part, the sort moves
  nothing, and \<^verbatim>\<open>spikesData\<close> has 2024-03-05 before 2024-01-01.
\<close>

theorem spikes_out_of_calendar_order:
  "map_option spikesData (getAnalyticsSummary no_fallback garbage_batch)
     = Some [(''2024-03-05'', 30), (''garbage'', 10), (''2024-01-01'', 20)]
   \<and> calendar_le ''2024-01-01'' ''2024-03-05''
   \<and> \<not> calendar_le ''2024-03-05'' ''2024-01-01''
   \<and> map date garbage_batch = [''2024-03-05'', ''garbage'', ''2024-01-01'']
   \<and> map amount garbage_batch = [- 30, - 10, - 20]"
proof -
  have "map_option spikesData (getAnalyticsSummary no_fallback garbage_batch)
     = Some [(''2024-03-05'', 30), (''garbage'', 10), (''2024-01-01'', 20)]"
    by (simp add: getAnalyticsSummary_def garbage_batch_spikes) (simp add: garbage_batch_def)
  moreover have "calendar_le ''2024-01-01'' ''2024-03-05''"
      "\<not> calendar_le ''2024-03-05'' ''2024-01-01''"
    by (simp_all add: calendar_le_def parse_examples)
  ultimately show ?thesis
    by (simp add: garbage_batch_def txn_def)
qed

text \<open>
  Claim C7, amended. For a non-empty batch in which the date of every record with a
  negative amount is a string that the engine reads as a date, \<^verbatim>\<open>spikesData\<close> is in
  ascending order of the dates read, which is ascending calendar order when these
  dates have the form \<^verbatim>\<open>YYYY-MM-DD\<close>; it has each date string once, and its dates
  are the exact date strings of the records with a negative amount. Each date is paired
  with the binary64 sum, taken in batch order, of the absolute amounts of the records
  of that exact date string with a negative amount, stated for the dates where these
  amounts are binary64 values and they and the partial sums stay in the range of
  binary64. The spec's example gives 20 for 2024-01-01 before 50 for 2024-01-02, the
  reverse of the batch order.
\<close>

theorem spikes_by_date_ascending:
  assumes "ts \<noteq> []"
    and "\<forall>t \<in> set ts. amount t < 0 \<longrightarrow> getTime engine (date t) \<noteq> None"
  shows "(\<exists>s. getAnalyticsSummary engine ts = Some s
            \<and> sorted_wrt (time_le engine) (map fst (spikesData s))
            \<and> ((\<forall>t \<in> set ts. amount t < 0 \<longrightarrow> parseDate (date t) \<noteq> None)
                 \<longrightarrow> sorted_wrt calendar_le (map fst (spikesData s)))
            \<and> distinct (map fst (spikesData s))
            \<and> set (map fst (spikesData s)) = {d. \<exists>t \<in> set ts. date t = d \<and> amount t < 0}
            \<and> (\<forall>d. sum_in_range (map (\<lambda>t. \<bar>amount t\<bar>)
                                     (filter (\<lambda>t. date t = d \<and> amount t < 0) ts))
                  \<longrightarrow> map_of (spikesData s) d =
                        (if list_ex (\<lambda>t. date t = d \<and> amount t < 0) ts
                         then Some (foldl fadd 0
                                      (map (\<lambda>t. \<bar>amount t\<bar>)
                                           (filter (\<lambda>t. date t = d \<and> amount t < 0) ts)))
                         else None)))
         \<and> map_option spikesData (getAnalyticsSummary engine spike_batch)
             = Some [(''2024-01-01'', 20), (''2024-01-02'', 50)]"
proof -
  let ?key = "\<lambda>e::string \<times> number. timeKey engine (fst e)"
  define sp where "sp = sort_key ?key (spikesMap ts)"
  obtain s where s: "getAnalyticsSummary engine ts = Some s" "spikesData s = sp"
    using assms(1) by (simp add: getAnalyticsSummary_def spikesData_sort_key [OF assms(2)] sp_def)
  have key: "\<exists>t \<in> set ts. date t = fst e \<and> amount t < 0" if "e \<in> set sp" for e
    using that spikesMap_keys [of e ts] by (simp add: sp_def)
  have valid: "getTime engine (fst e) \<noteq> None" if "e \<in> set sp" for e
    using key [OF that] assms(2) by auto
  have "sorted (map ?key sp)"
    by (simp add: sp_def)
  then have sk: "sorted_wrt (\<lambda>a b. ?key a \<le> ?key b) sp"
    by (simp add: sorted_map)
  then have "sorted_wrt (\<lambda>a b. time_le engine (fst a) (fst b)) sp"
    by (rule sorted_wrt_mono_rel [rotated]) (simp add: time_le_timeKey valid)
  then have 1: "sorted_wrt (time_le engine) (map fst sp)"
    by (simp add: sorted_wrt_map)
  have c1: "sorted_wrt calendar_le (map fst sp)"
    if c: "\<forall>t \<in> set ts. amount t < 0 \<longrightarrow> parseDate (date t) \<noteq> None"
  proof -
    have p: "parseDate (fst e) \<noteq> None" if "e \<in> set sp" for e
      using key [OF that] c by auto
    have "sorted_wrt (\<lambda>a b. calendar_le (fst a) (fst b)) sp"
      using sk
      by (rule sorted_wrt_mono_rel [rotated])
         (simp add: calendar_le_time_le [where engine = engine] time_le_timeKey valid p)
    then show ?thesis
      by (simp add: sorted_wrt_map)
  qed
  have 2: "distinct (map fst sp)"
    by (simp add: sp_def distinct_fst_sort_key distinct_spikesMap)
  have 3: "map_of sp = map_of (spikesMap ts)"
    by (simp add: sp_def map_of_sort_key distinct_spikesMap)
  have 4: "map_option spikesData (getAnalyticsSummary engine spike_batch)
             = Some [(''2024-01-01'', 20), (''2024-01-02'', 50)]"
    by (simp add: getAnalyticsSummary_def spike_batch_spikes) (simp add: spike_batch_def)
  have "dom (map_of sp) = {d. \<exists>t \<in> set ts. date t = d \<and> amount t < 0}"
    unfolding 3 by (auto simp add: map_of_spikesMap list_ex_iff split: if_splits)
  then have 5: "set (map fst sp) = {d. \<exists>t \<in> set ts. date t = d \<and> amount t < 0}"
    by (simp only: dom_map_of_conv_image_fst set_map)
  show ?thesis
    using s 1 c1 2 4 5 by (simp add: 3 map_of_spikesMap)
qed

theorem spikes_by_date_ascending_witness:
  "spike_batch \<noteq> []
   \<and> list_all (\<lambda>t. getTime no_fallback (date t) \<noteq> None) spike_batch
   \<and> list_all (\<lambda>t. parseDate (date t) \<noteq> None) spike_batch
   \<and> (\<exists>s. getAnalyticsSummary no_fallback spike_batch = Some s
          \<and> spikesData s = [(''2024-01-01'', 20), (''2024-01-02'', 50)]
          \<and> sorted_wrt (time_le no_fallback) (map fst (spikesData s))
          \<and> sorted_wrt calendar_le (map fst (spikesData s))
          \<and> set (map fst (spikesData s)) = {''2024-01-01'', ''2024-01-02''}
          \<and> map_of (spikesData s) ''2024-01-01'' = Some (foldl fadd 0 [20])
          \<and> map_of (spikesData s) ''2024-01-02'' = Some (foldl fadd 0 [50])
          \<and> calendar_le ''2024-01-01'' ''2024-01-02''
          \<and> \<not> calendar_le ''2024-01-02'' ''2024-01-01'')
   \<and> sum_in_range [20] \<and> sum_in_range [50]"
proof -
  have h1: "spike_batch \<noteq> []"
    by (simp add: spike_batch_def)
  have p: "list_all (\<lambda>t. parseDate (date t) \<noteq> None) spike_batch"
    by (simp add: spike_batch_def txn_def parse_examples)
  then have g: "list_all (\<lambda>t. getTime no_fallback (date t) \<noteq> None) spike_batch"
    unfolding list_all_iff using getTime_canonical [where engine = no_fallback] by blast
  have h2: "\<forall>t \<in> set spike_batch. amount t < 0 \<longrightarrow> getTime no_fallback (date t) \<noteq> None"
    using g by (simp add: list_all_iff)
  have h3: "\<forall>t \<in> set spike_batch. amount t < 0 \<longrightarrow> parseDate (date t) \<noteq> None"
    using p by (simp add: list_all_iff)
  have c: "calendar_le ''2024-01-01'' ''2024-01-02''" "\<not> calendar_le ''2024-01-02'' ''2024-01-01''"
    by (simp_all add: calendar_le_def parse_examples)
  have e: "fl 20 = 20" "fl 50 = 50" "fadd 0 20 = 20" "fadd 0 50 = 50"
    by code_simp+
  have r: "sum_in_range [20]" "sum_in_range [50]"
    by (simp_all add: sum_in_range_def in_range_def pow2_def e)
  have f: "map (\<lambda>t. \<bar>amount t\<bar>)
             (filter (\<lambda>t. date t = ''2024-01-01'' \<and> amount t < 0) spike_batch) = [20]"
    "map (\<lambda>t. \<bar>amount t\<bar>)
       (filter (\<lambda>t. date t = ''2024-01-02'' \<and> amount t < 0) spike_batch) = [50]"
    by (simp_all add: spike_batch_def txn_def)
  have k: "{d. \<exists>t \<in> set spike_batch. date t = d \<and> amount t < 0}
           = {''2024-01-01'', ''2024-01-02''}"
    by (auto simp add: spike_batch_def txn_def)
  note T = spikes_by_date_ascending [where engine = no_fallback, OF h1 h2]
  show ?thesis
    using T h1 p g h3 c r unfolding k by (auto simp add: f e)
qed

subsection \<open>The scores of a batch of equal amounts\<close>

lemma dime: "tenth = 3602879701896397 / 36028797018963968"
  by code_simp

lemma dime_sum:
  "fadd 0 (3602879701896397 / 36028797018963968) = 3602879701896397 / 36028797018963968"
  "fadd (3602879701896397 / 36028797018963968) (3602879701896397 / 36028797018963968)
     = 3602879701896397 / 18014398509481984"
  "fadd (3602879701896397 / 18014398509481984) (3602879701896397 / 36028797018963968)
     = 1351079888211149 / 4503599627370496"
  "fdiv (1351079888211149 / 4503599627370496) 3 = 7205759403792795 / 72057594037927936"
  by code_simp+

lemma dime_dev:
  "fsub (3602879701896397 / 36028797018963968) (7205759403792795 / 72057594037927936)
     = - (1 / 72057594037927936)"
  "Math_pow_2 (- (1 / 72057594037927936)) = 1 / 5192296858534827628530496329220096"
  by code_simp+

lemma dime_var:
  "fadd 0 (1 / 5192296858534827628530496329220096) = 1 / 5192296858534827628530496329220096"
  "fadd (1 / 5192296858534827628530496329220096) (1 / 5192296858534827628530496329220096)
     = 1 / 2596148429267413814265248164610048"
  "fadd (1 / 2596148429267413814265248164610048) (1 / 5192296858534827628530496329220096)
     = 3 / 5192296858534827628530496329220096"
  "fdiv (3 / 5192296858534827628530496329220096) 3 = 1 / 5192296858534827628530496329220096"
  by code_simp+

lemma dime_sd:
  "Math_sqrt (1 / 5192296858534827628530496329220096) = 1 / 72057594037927936"
  by code_simp

lemma dime_score:
  "fdiv (- (1 / 72057594037927936)) (1 / 72057594037927936) = - 1"
  "parseFloat_toFixed_2 (- 1) = - 1"
  by code_simp+


lemma dime_amounts:
  "map (\<lambda>t. \<bar>amount t\<bar>) dime_batch =
     [3602879701896397 / 36028797018963968, 3602879701896397 / 36028797018963968,
      3602879701896397 / 36028797018963968]"
  by (simp add: dime_batch_def txn_def dime)

lemma dime_mean:
  "mean_of [3602879701896397 / 36028797018963968, 3602879701896397 / 36028797018963968,
            3602879701896397 / 36028797018963968] = 7205759403792795 / 72057594037927936"
  by (simp add: mean_of_def dime_sum)

lemma dime_stdDev:
  "stdDev_of [3602879701896397 / 36028797018963968, 3602879701896397 / 36028797018963968,
              3602879701896397 / 36028797018963968] = 1 / 72057594037927936"
  by (simp add: stdDev_of_def variance_of_def dime_mean dime_dev dime_var dime_sd)

text \<open>
  Claim C3, at a batch of three records with the same amount, ten cents: the sum of the
  three absolute amounts rounds up, so \<^verbatim>\<open>mean\<close> is the number after \<^verbatim>\<open>0.1\<close>,
  \<^verbatim>\<open>stdDev\<close> is \<open>1 / 2 ^ 56\<close> and not \<open>0\<close>, and every score is \<open>- 1\<close>.
\<close>

theorem equal_amounts_scored_minus_one:
  "map anomalyScore (performAdvancedAnalytics dime_batch) = [Some (- 1), Some (- 1), Some (- 1)]
   \<and> map amount dime_batch = [- tenth, - tenth, - tenth]
   \<and> stdDev_of (map (\<lambda>t. \<bar>amount t\<bar>) dime_batch) = 1 / 2 ^ 56"
proof -
  have "map anomalyScore (performAdvancedAnalytics dime_batch) = [Some (- 1), Some (- 1), Some (- 1)]"
    unfolding anomalyScore_map dime_amounts dime_mean dime_stdDev
    by (simp add: dime_batch_def txn_def dime dime_dev dime_score)
  moreover have "stdDev_of (map (\<lambda>t. \<bar>amount t\<bar>) dime_batch) = 1 / 2 ^ 56"
    unfolding dime_amounts dime_stdDev by simp
  ultimately show ?thesis
    by (simp add: dime_batch_def txn_def)
qed

subsection \<open>The anomaly score\<close>













subsection \<open>Accuracy of the rounding model\<close>




subsection \<open>The statistics of the code and of the spec\<close>






















subsection \<open>The score of a record\<close>














text \<open>
  With the statistics in exact arithmetic the claim fails in another way. The amounts
  \<open>0\<close>, \<open>0\<close>, \<open>- 2\<close>, \<open>3\<close>, \<open>- 4\<close> have the mean \<open>9 / 5\<close> and the population standard
  deviation \<open>8 / 5\<close>, so the exact quotient of the third record is \<open>1 / 8\<close>, which
  rounds half away from zero to \<open>0.13\<close>. The code computes a mean just below \<open>9 / 5\<close>
  and a quotient just below \<open>1 / 8\<close>, and gives the score \<open>0.12\<close>.
\<close>

lemma midway_steps:
  "fadd 0 0 = 0"
  "fadd 0 2 = 2"
  "fadd 2 3 = 5"
  "fadd 5 4 = 9"
  "fdiv 9 5 = 8106479329266893 / 4503599627370496"
  "fsub 0 (8106479329266893 / 4503599627370496) = - (8106479329266893 / 4503599627370496)"
  "Math_pow_2 (- (8106479329266893 / 4503599627370496)) = 1823957849085051 / 562949953421312"
  "fadd 0 (1823957849085051 / 562949953421312) = 1823957849085051 / 562949953421312"
  "fadd (1823957849085051 / 562949953421312) (1823957849085051 / 562949953421312)
     = 1823957849085051 / 281474976710656"
  "fsub 2 (8106479329266893 / 4503599627370496) = 900719925474099 / 4503599627370496"
  "Math_pow_2 (900719925474099 / 4503599627370496) = 720575940379279 / 18014398509481984"
  "fadd (1823957849085051 / 281474976710656) (720575940379279 / 18014398509481984)
     = 7340867392613909 / 1125899906842624"
  "fsub 3 (8106479329266893 / 4503599627370496) = 5404319552844595 / 4503599627370496"
  "Math_pow_2 (5404319552844595 / 4503599627370496) = 3242591731706757 / 2251799813685248"
  "fadd (7340867392613909 / 1125899906842624) (3242591731706757 / 2251799813685248)
     = 1120270407308411 / 140737488355328"
  "fsub 4 (8106479329266893 / 4503599627370496) = 2476979795053773 / 1125899906842624"
  "Math_pow_2 (2476979795053773 / 1125899906842624) = 5449355549118301 / 1125899906842624"
  "fadd (1120270407308411 / 140737488355328) (5449355549118301 / 1125899906842624)
     = 3602879701896397 / 281474976710656"
  "fdiv (3602879701896397 / 281474976710656) 5 = 5764607523034235 / 2251799813685248"
  "Math_sqrt (5764607523034235 / 2251799813685248) = 3602879701896397 / 2251799813685248"
  "fdiv (900719925474099 / 4503599627370496) (3602879701896397 / 2251799813685248)
     = 4503599627370495 / 36028797018963968"
  "parseFloat_toFixed_2 (4503599627370495 / 36028797018963968) = fl (12 / 100)"
  by code_simp+

lemma midway_stats:
  "mean_of [0, 0, 2, 3, 4] = 8106479329266893 / 4503599627370496"
  "stdDev_of [0, 0, 2, 3, 4] = 3602879701896397 / 2251799813685248"
  by (simp_all add: mean_of_def stdDev_of_def variance_of_def midway_steps)

lemma midway_exact:
  "exact_mean [0, 0, 2, 3, 4] = 9 / 5"
  "mean_square_dev (9 / 5) [0, 0, 2, 3, 4] = (8 / 5) * (8 / 5)"
  "round_half_away_2 ((2 - 9 / 5) / (8 / 5)) = 13 / 100"
  "fl (13 / 100) \<noteq> fl (12 / 100)"
  by code_simp+

lemma midway_batch_third_score:
  "amounts_of midway_batch = [0, 0, 2, 3, 4]
   \<and> anomalyScore (performAdvancedAnalytics midway_batch ! 2) = Some (fl (12 / 100))
   \<and> exact_mean [0, 0, 2, 3, 4] = 9 / 5
   \<and> mean_square_dev (9 / 5) [0, 0, 2, 3, 4] = (8 / 5) * (8 / 5)
   \<and> round_half_away_2 ((2 - 9 / 5) / (8 / 5)) = 13 / 100
   \<and> fl (13 / 100) \<noteq> fl (12 / 100)"
proof -
  have A: "map (\<lambda>t. \<bar>amount t\<bar>) midway_batch = [0, 0, 2, 3, 4]"
    by (simp add: midway_batch_def txn_def)
  have l: "2 < length midway_batch"
    by (simp add: midway_batch_def)
  then have "2 < length (performAdvancedAnalytics midway_batch)"
    by (simp add: analytics_map)
  then have "anomalyScore (performAdvancedAnalytics midway_batch ! 2)
             = map anomalyScore (performAdvancedAnalytics midway_batch) ! 2"
    by (simp only: nth_map)
  also have "\<dots> = Some (parseFloat_toFixed_2
                        (fdiv (fsub \<bar>amount (midway_batch ! 2)\<bar> (8106479329266893 / 4503599627370496))
                              (3602879701896397 / 2251799813685248)))"
    unfolding anomalyScore_map A midway_stats using l by simp
  also have "\<bar>amount (midway_batch ! 2)\<bar> = 2"
    by (simp add: midway_batch_def txn_def)
  finally have "anomalyScore (performAdvancedAnalytics midway_batch ! 2) = Some (fl (12 / 100))"
    by (simp only: midway_steps)
  then show ?thesis
    using midway_exact by (simp add: amounts_of_def A)
qed



end
